theory Spec2Isabelle
  imports Complex_Main
begin

section \<open>JavaScript values\<close>

text \<open>
  The server is an Express application over a PostgreSQL pool. The repository holds
  several revisions of \<open>index.js\<close>: the latest mounts the routers of \<open>match.js\<close> and
  \<open>player/index.js\<close>, whose first middleware is \<open>authorize\<close>, and these are the
  handlers of \<open>/match/new\<close> and \<open>/player/new\<close> modelled here; the player-id check
  \<open>validateOnePlayerId\<close> and the read handlers \<open>/player/:player_id/matches\<close> and
  \<open>/scores/all/:player_id\<close> are those of the earlier revisions, which alone have them.

  Strings are lists of 8-bit characters (code units below 256). A query parameter
  (\<open>req.query.x\<close>) is \<open>undefined\<close> when absent, a string, or, for a repeated or
  bracketed parameter, an array or object: \<open>QOther s\<close> is such a value whose
  \<open>ToString\<close> is \<open>s\<close>. Under \<open>===\<close> it equals no string, and \<open>JSON.parse\<close> and
  \<open>parseInt\<close> read it through \<open>ToString\<close>.
\<close>

datatype qval = QUndefined | QStr string | QOther string

fun to_string :: "qval \<Rightarrow> string" where
  "to_string QUndefined = ''undefined''"
| "to_string (QStr s) = s"
| "to_string (QOther s) = s"

text \<open>
  A value of \<open>JSON.parse\<close>. Numbers are the exact rationals their literals denote
  (the rounding to a double is left out).
\<close>

datatype json =
    JNull
  | JBool bool
  | JNum rat
  | JStr string
  | JArr "json list"
  | JObj "(string \<times> json) list"

datatype js_error = TypeError | InvalidId | DbError

text \<open>
  \<open>player.k\<close> for the keys \<open>id\<close>, \<open>kills\<close> and \<open>deaths\<close>: reading a property of
  \<open>null\<close> throws a TypeError, an object gives the value of its last entry for the key
  (\<open>None\<close> is \<open>undefined\<close>), and numbers, strings, booleans and arrays have no such
  property.
\<close>

fun get_prop :: "json \<Rightarrow> string \<Rightarrow> js_error + json option" where
  "get_prop JNull k = Inl TypeError"
| "get_prop (JObj kvs) k = Inr (map_of (rev kvs) k)"
| "get_prop (JBool b) k = Inr None"
| "get_prop (JNum x) k = Inr None"
| "get_prop (JStr s) k = Inr None"
| "get_prop (JArr xs) k = Inr None"

text \<open>The decimal text of an integer, as string concatenation with a number gives it.\<close>

fun show_nat :: "nat \<Rightarrow> string" where
  "show_nat n =
     (if n < 10 then [''0123456789'' ! n]
      else show_nat (n div 10) @ [''0123456789'' ! (n mod 10)])"

declare show_nat.simps [simp del]

definition show_int :: "int \<Rightarrow> string" where
  "show_int i = (if i < 0 then CHR ''-'' # show_nat (nat (- i)) else show_nat (nat i))"

subsection \<open>parseInt\<close>

text \<open>
  \<open>parseInt(string)\<close> with no radix: leading white space is dropped, then an optional
  sign, then a \<open>0x\<close> or \<open>0X\<close> prefix selects radix 16, and the longest prefix of
  digits of the radix is read. \<open>None\<close> is \<open>NaN\<close> (no digit). The result is the exact
  integer: JavaScript rounds it to a double beyond \<open>2^53\<close>, which changes neither its
  sign nor whether it is zero, the only things the validators test. The rounding is
  left out, as it is for the numbers of \<open>JSON.parse\<close>, so \<open>player.id === winner\<close> is
  the equality of the exact values (beyond \<open>2^53\<close> two literals that differ may round
  to the same double and be equal in JavaScript).
\<close>

definition is_ws :: "char \<Rightarrow> bool" where
  "is_ws c = (of_char c \<in> {9, 10, 11, 12, 13, 32, 160 :: nat})"

definition digit_val :: "char \<Rightarrow> nat option" where
  "digit_val c =
     (let n = of_char c :: nat in
      if 48 \<le> n \<and> n \<le> 57 then Some (n - 48)
      else if 97 \<le> n \<and> n \<le> 122 then Some (n - 87)
      else if 65 \<le> n \<and> n \<le> 90 then Some (n - 55)
      else None)"

fun digits_prefix :: "nat \<Rightarrow> string \<Rightarrow> nat list" where
  "digits_prefix R [] = []"
| "digits_prefix R (c # cs) =
     (case digit_val c of
        None \<Rightarrow> []
      | Some v \<Rightarrow> if v < R then v # digits_prefix R cs else [])"

definition parseInt :: "string \<Rightarrow> int option" where
  "parseInt inputString =
     (let S = dropWhile is_ws inputString;
          sign = (case S of [] \<Rightarrow> (1::int) | c # _ \<Rightarrow> if c = CHR ''-'' then - 1 else 1);
          S1 = (case S of [] \<Rightarrow> S | c # cs \<Rightarrow> if c = CHR ''-'' \<or> c = CHR ''+'' then cs else S);
          hex = (case S1 of
                   a # b # _ \<Rightarrow> a = CHR ''0'' \<and> (b = CHR ''x'' \<or> b = CHR ''X'')
                 | _ \<Rightarrow> False);
          R = (if hex then 16 else 10);
          S2 = (if hex then drop 2 S1 else S1);
          Z = digits_prefix R S2
      in if Z = [] then None else Some (sign * int (foldl (\<lambda>a v. a * R + v) 0 Z)))"

section \<open>Responses and middleware\<close>

record response =
  status :: nat
  body :: string

definition respond :: "nat \<Rightarrow> string \<Rightarrow> response" where
  "respond code text = \<lparr>status = code, body = text\<rparr>"

text \<open>A middleware either passes the request on (\<open>next()\<close>) or ends the response.\<close>

datatype mw_result = Next | End response

text \<open>The query parameters the handlers read.\<close>

record query_params =
  q_auth :: qval
  q_players :: qval
  q_winner :: qval
  q_name :: qval
  q_nickname :: qval

text \<open>authorize.js: \<open>req.query.auth === 'secret'\<close>.\<close>

definition authorize :: "query_params \<Rightarrow> mw_result" where
  "authorize q =
     (if q_auth q = QStr ''secret'' then Next
      else End (respond 403 ''Not authorized''))"

subsection \<open>The two player-id validators\<close>

text \<open>index.js: \<open>validateOnePlayerId\<close> throws \<open>'invalid id'\<close> or returns the integer.\<close>

definition validateOnePlayerId :: "string \<Rightarrow> js_error + int" where
  "validateOnePlayerId idStr =
     (case parseInt idStr of
        None \<Rightarrow> Inl InvalidId
      | Some i \<Rightarrow> if i < 0 then Inl InvalidId else Inr i)"

text \<open>player/index.js: the middleware \<open>validatePlayerId\<close> on \<open>req.params.player_id\<close>.\<close>

definition validatePlayerId :: "string \<Rightarrow> mw_result" where
  "validatePlayerId player_id =
     (case parseInt player_id of
        None \<Rightarrow> End (respond 400 ''Invalid player ID.'')
      | Some i \<Rightarrow> if i \<le> 0 then End (respond 400 ''Invalid player ID.'') else Next)"

section \<open>The schema of a new match's player data\<close>

text \<open>
  match.js compiles with Ajv the schema
  \<^verbatim>\<open>{type: 'array', minItems: 1, maxItems: 4, items: {properties: {
      id: {type: 'number', minimum: -1}, kills: {type: 'number', minimum: 0},
      deaths: {type: 'number', minimum: 0}}}}\<close>.
  The keyword \<open>properties\<close> constrains objects only, and only the properties that are
  present (the schema has no \<open>required\<close> and no \<open>type\<close> for the items): an item that
  is not an object, or an object without one of the three keys, passes.
\<close>

fun number_minimum :: "rat \<Rightarrow> json \<Rightarrow> bool" where
  "number_minimum lo (JNum x) = (lo \<le> x)"
| "number_minimum lo JNull = False"
| "number_minimum lo (JBool b) = False"
| "number_minimum lo (JStr s) = False"
| "number_minimum lo (JArr xs) = False"
| "number_minimum lo (JObj kvs) = False"

definition property_ok :: "json \<Rightarrow> string \<Rightarrow> rat \<Rightarrow> bool" where
  "property_ok item k lo =
     (case get_prop item k of
        Inl e \<Rightarrow> True
      | Inr None \<Rightarrow> True
      | Inr (Some v) \<Rightarrow> number_minimum lo v)"

fun validate_item :: "json \<Rightarrow> bool" where
  "validate_item (JObj kvs) =
     (property_ok (JObj kvs) ''id'' (- 1) \<and>
      property_ok (JObj kvs) ''kills'' 0 \<and>
      property_ok (JObj kvs) ''deaths'' 0)"
| "validate_item JNull = True"
| "validate_item (JBool b) = True"
| "validate_item (JNum x) = True"
| "validate_item (JStr s) = True"
| "validate_item (JArr xs) = True"

fun validateNewMatchData :: "json \<Rightarrow> bool" where
  "validateNewMatchData (JArr items) =
     (1 \<le> length items \<and> length items \<le> 4 \<and> list_all validate_item items)"
| "validateNewMatchData JNull = False"
| "validateNewMatchData (JBool b) = False"
| "validateNewMatchData (JNum x) = False"
| "validateNewMatchData (JStr s) = False"
| "validateNewMatchData (JObj kvs) = False"

section \<open>The database\<close>

text \<open>
  The schema of the database is not in the repository; the tables hold the columns the
  statements of the handlers name. A numeric column or parameter is a number or NULL
  (\<open>None\<close>); the serial ids and the columns written only from them are integers.
\<close>

type_synonym sqlnum = "rat option"

record player_row =
  pl_id :: int
  pl_name :: qval
  pl_nickname :: qval
  pl_matches :: sqlnum
  pl_wins :: sqlnum
  pl_kills :: sqlnum
  pl_deaths :: sqlnum

record match_row =
  ma_id :: int
  ma_winner :: int

record pm_row =
  pm_player :: sqlnum
  pm_match :: int
  pm_kills :: sqlnum
  pm_deaths :: sqlnum

record tables =
  players_tbl :: "player_row list"
  matches_tbl :: "match_row list"
  player_matches_tbl :: "pm_row list"

text \<open>
  The statements the handlers send. \<open>UpdatePlayer won k d p\<close> is
  \<^verbatim>\<open>UPDATE players SET matches = matches + 1[, wins = wins + 1], kills = kills + $1,
  deaths = deaths + $2 WHERE id = $3\<close>, with the clause on \<open>wins\<close> when \<open>won\<close>.
\<close>

datatype stmt =
    Begin
  | Commit
  | InsertMatch int
  | InsertPlayerMatch sqlnum int sqlnum sqlnum
  | UpdatePlayer bool sqlnum sqlnum sqlnum
  | InsertPlayer qval qval
  | SelectMatches int
  | SelectWinners int

datatype event = Connect | Query stmt | Release

text \<open>
  The transaction of the connection: none open, one open with its working copy of the
  tables, or one that a failed statement has aborted.
\<close>

datatype txn = Idle | InTxn tables | Aborted

record db =
  committed :: tables
  conn :: txn
  match_seq :: int
  player_seq :: int
  counter_default :: sqlnum
  log :: "event list"

text \<open>
  What the database or the connection does wrong is a parameter: \<open>F past e\<close> says
  that the call \<open>e\<close>, made after the calls \<open>past\<close>, fails: the pool gives no
  client, or the database rejects the statement (a constraint of the unknown schema).
\<close>

type_synonym faults = "event list \<Rightarrow> event \<Rightarrow> bool"

text \<open>SQL arithmetic and comparison: NULL makes a sum NULL and a comparison not true.\<close>

fun sql_add :: "sqlnum \<Rightarrow> sqlnum \<Rightarrow> sqlnum" where
  "sql_add (Some x) (Some y) = Some (x + y)"
| "sql_add None b = None"
| "sql_add (Some x) None = None"

definition update_row :: "bool \<Rightarrow> sqlnum \<Rightarrow> sqlnum \<Rightarrow> sqlnum \<Rightarrow> player_row \<Rightarrow> player_row" where
  "update_row won k d p r =
     (if p = Some (of_int (pl_id r))
      then r\<lparr>pl_matches := sql_add (pl_matches r) (Some 1),
             pl_wins := (if won then sql_add (pl_wins r) (Some 1) else pl_wins r),
             pl_kills := sql_add (pl_kills r) k,
             pl_deaths := sql_add (pl_deaths r) d\<rparr>
      else r)"

definition current :: "db \<Rightarrow> tables" where
  "current d = (case conn d of InTxn t \<Rightarrow> t | Idle \<Rightarrow> committed d | Aborted \<Rightarrow> committed d)"

definition write_tables :: "tables \<Rightarrow> db \<Rightarrow> db" where
  "write_tables t d =
     (case conn d of
        InTxn w \<Rightarrow> d\<lparr>conn := InTxn t\<rparr>
      | Idle \<Rightarrow> d\<lparr>committed := t\<rparr>
      | Aborted \<Rightarrow> d\<lparr>committed := t\<rparr>)"

text \<open>
  A statement that the database executes: the rows it returns (one integer column)
  and the new state. Outside a transaction a statement commits by itself; BEGIN inside
  a transaction and COMMIT outside one only warn; the sequences of the serial ids are
  not transactional.
\<close>

fun exec :: "stmt \<Rightarrow> db \<Rightarrow> int list \<times> db" where
  "exec Begin d =
     ([], (case conn d of
             Idle \<Rightarrow> d\<lparr>conn := InTxn (committed d)\<rparr>
           | InTxn t \<Rightarrow> d
           | Aborted \<Rightarrow> d))"
| "exec Commit d =
     ([], (case conn d of
             InTxn t \<Rightarrow> d\<lparr>committed := t, conn := Idle\<rparr>
           | Idle \<Rightarrow> d
           | Aborted \<Rightarrow> d\<lparr>conn := Idle\<rparr>))"
| "exec (InsertMatch w) d =
     ([match_seq d],
      write_tables
        ((current d)\<lparr>matches_tbl := matches_tbl (current d) @ [\<lparr>ma_id = match_seq d, ma_winner = w\<rparr>]\<rparr>)
        (d\<lparr>match_seq := match_seq d + 1\<rparr>))"
| "exec (InsertPlayerMatch p m k dth) d =
     ([],
      write_tables
        ((current d)\<lparr>player_matches_tbl := player_matches_tbl (current d) @
           [\<lparr>pm_player = p, pm_match = m, pm_kills = k, pm_deaths = dth\<rparr>]\<rparr>)
        d)"
| "exec (UpdatePlayer won k dth p) d =
     ([],
      write_tables
        ((current d)\<lparr>players_tbl := map (update_row won k dth p) (players_tbl (current d))\<rparr>)
        d)"
| "exec (InsertPlayer nm nick) d =
     ([player_seq d],
      write_tables
        ((current d)\<lparr>players_tbl := players_tbl (current d) @
           [\<lparr>pl_id = player_seq d, pl_name = nm, pl_nickname = nick,
             pl_matches = counter_default d, pl_wins = counter_default d,
             pl_kills = counter_default d, pl_deaths = counter_default d\<rparr>]\<rparr>)
        (d\<lparr>player_seq := player_seq d + 1\<rparr>))"
| "exec (SelectMatches p) d =
     (map pm_match (filter (\<lambda>r. pm_player r = Some (of_int p)) (player_matches_tbl (current d))), d)"
| "exec (SelectWinners p) d =
     (concat (map (\<lambda>r. map ma_winner (filter (\<lambda>m. ma_id m = pm_match r) (matches_tbl (current d))))
        (filter (\<lambda>r. pm_player r = Some (of_int p)) (player_matches_tbl (current d)))), d)"

text \<open>
  An INSERT that the database rejects has drawn its serial id all the same: the
  sequences are not rolled back.
\<close>

fun draw_id :: "stmt \<Rightarrow> db \<Rightarrow> db" where
  "draw_id (InsertMatch w) d = d\<lparr>match_seq := match_seq d + 1\<rparr>"
| "draw_id (InsertPlayer nm nick) d = d\<lparr>player_seq := player_seq d + 1\<rparr>"
| "draw_id Begin d = d"
| "draw_id Commit d = d"
| "draw_id (InsertPlayerMatch p m k dth) d = d"
| "draw_id (UpdatePlayer won k dth p) d = d"
| "draw_id (SelectMatches p) d = d"
| "draw_id (SelectWinners p) d = d"

text \<open>
  \<open>client.query\<close> and \<open>pool.query\<close>: the call is logged, and it throws when the
  database does not execute the statement. In an aborted transaction every statement
  but COMMIT (which then rolls back) is ignored with an error. A statement that the
  database rejects aborts the transaction it is in; a COMMIT that is rejected ends the
  transaction, and the connection is idle again.
\<close>

definition query :: "faults \<Rightarrow> stmt \<Rightarrow> db \<Rightarrow> (js_error \<times> db) + (int list \<times> db)" where
  "query F s d =
     (let d1 = d\<lparr>log := log d @ [Query s]\<rparr> in
      if conn d = Aborted \<and> s \<noteq> Commit then Inl (DbError, d1)
      else if F (log d) (Query s)
      then Inl (DbError,
                (draw_id s d1)\<lparr>conn :=
                   (if s = Commit then Idle
                    else (case conn d of Idle \<Rightarrow> Idle | InTxn t \<Rightarrow> Aborted | Aborted \<Rightarrow> Aborted))\<rparr>)
      else Inr (exec s d1))"

text \<open>\<open>pool.connect()\<close> and \<open>client.release()\<close>.\<close>

definition connect :: "faults \<Rightarrow> db \<Rightarrow> (js_error \<times> db) + db" where
  "connect F d =
     (if F (log d) Connect then Inl (DbError, d) else Inr (d\<lparr>log := log d @ [Connect]\<rparr>))"

definition release :: "db \<Rightarrow> db" where
  "release d = d\<lparr>log := log d @ [Release]\<rparr>"

section \<open>The match router (match.js)\<close>

text \<open>
  A query parameter as node-postgres sends it: \<open>undefined\<close> and \<open>null\<close> are NULL, a
  number is its value. The schema lets \<open>id\<close>, \<open>kills\<close> and \<open>deaths\<close> of a player be
  nothing but \<open>undefined\<close> or a number, so the other values do not reach a statement.
\<close>

fun pg_num :: "json option \<Rightarrow> sqlnum" where
  "pg_num None = None"
| "pg_num (Some (JNum x)) = Some x"
| "pg_num (Some JNull) = None"
| "pg_num (Some (JBool b)) = None"
| "pg_num (Some (JStr s)) = None"
| "pg_num (Some (JArr xs)) = None"
| "pg_num (Some (JObj kvs)) = None"

text \<open>\<open>for (const player of players)\<close>: an array gives its items, a string its
  characters, and the other values are not iterable.\<close>

fun elements :: "json \<Rightarrow> js_error + json list" where
  "elements (JArr xs) = Inr xs"
| "elements (JStr s) = Inr (map (\<lambda>c. JStr [c]) s)"
| "elements JNull = Inl TypeError"
| "elements (JBool b) = Inl TypeError"
| "elements (JNum x) = Inl TypeError"
| "elements (JObj kvs) = Inl TypeError"

text \<open>
  The body of the loop over the players: an entry whose \<open>id\<close> is \<open>-1\<close> is skipped
  (\<open>continue\<close>); for every other one a row of \<open>player_matches\<close> is inserted and the
  player's counters are updated. A statement that throws leaves the loop.
\<close>

fun record_players :: "faults \<Rightarrow> int \<Rightarrow> int \<Rightarrow> json list \<Rightarrow> db \<Rightarrow> (js_error \<times> db) + db" where
  "record_players F matchId winner [] d = Inr d"
| "record_players F matchId winner (player # rest) d =
     (case get_prop player ''id'' of
        Inl e \<Rightarrow> Inl (e, d)
      | Inr pid \<Rightarrow>
          if pid = Some (JNum (- 1)) then record_players F matchId winner rest d
          else
            (case get_prop player ''kills'' of
               Inl e \<Rightarrow> Inl (e, d)
             | Inr kills \<Rightarrow>
                 (case get_prop player ''deaths'' of
                    Inl e \<Rightarrow> Inl (e, d)
                  | Inr deaths \<Rightarrow>
                      (case query F (InsertPlayerMatch (pg_num pid) matchId (pg_num kills) (pg_num deaths)) d of
                         Inl err \<Rightarrow> Inl err
                       | Inr (rows1, d1) \<Rightarrow>
                           (case query F (UpdatePlayer (pid = Some (JNum (of_int winner)))
                                            (pg_num kills) (pg_num deaths) (pg_num pid)) d1 of
                              Inl err \<Rightarrow> Inl err
                            | Inr (rows2, d2) \<Rightarrow> record_players F matchId winner rest d2)))))"

text \<open>
  The \<open>try\<close> block of the handler: BEGIN, the row of the match (\<open>result.rows[0].id\<close>
  is its id), the players, COMMIT. \<open>Inl\<close> is the \<open>catch\<close>: no statement follows, and
  the handler sends no ROLLBACK.
\<close>

definition match_txn :: "faults \<Rightarrow> int \<Rightarrow> json \<Rightarrow> db \<Rightarrow> (js_error \<times> db) + (int \<times> db)" where
  "match_txn F winner players d =
     (case query F Begin d of
        Inl err \<Rightarrow> Inl err
      | Inr (rows0, d1) \<Rightarrow>
     (case query F (InsertMatch winner) d1 of
        Inl err \<Rightarrow> Inl err
      | Inr (rows, d2) \<Rightarrow>
     (case rows of
        [] \<Rightarrow> Inl (TypeError, d2)
      | matchId # others \<Rightarrow>
     (case elements players of
        Inl e \<Rightarrow> Inl (e, d2)
      | Inr items \<Rightarrow>
     (case record_players F matchId winner items d2 of
        Inl err \<Rightarrow> Inl err
      | Inr d3 \<Rightarrow>
     (case query F Commit d3 of
        Inl err \<Rightarrow> Inl err
      | Inr (rows1, d4) \<Rightarrow> Inr (matchId, d4)))))))"

text \<open>
  The second half of the handler of \<open>/match/new\<close>, from \<open>pool.connect()\<close> on.
  The result is the response, or \<open>None\<close> when the handler's promise is rejected
  and nothing is sent (\<open>pool.connect()\<close> stands outside the \<open>try\<close>), and the state
  of the database. \<open>finally\<close> releases the client and ends the response.
\<close>

definition create_match :: "faults \<Rightarrow> int \<Rightarrow> json \<Rightarrow> db \<Rightarrow> response option \<times> db" where
  "create_match F winner players d =
     (case connect F d of
        Inl (e, d') \<Rightarrow> (None, d')
      | Inr d1 \<Rightarrow>
          (case match_txn F winner players d1 of
             Inl (e, d2) \<Rightarrow> (Some (respond 500 ''Match creation failed''), release d2)
           | Inr (matchId, d2) \<Rightarrow>
               (Some (respond 200 (''Match ID: '' @ show_int matchId)), release d2)))"

text \<open>
  The handler of \<open>/match/new\<close>. \<open>JSON.parse\<close> is the parameter \<open>parse\<close> (\<open>None\<close>
  when it throws). The checks come first, and each failure answers 400 and returns.
\<close>

definition match_new_handler ::
  "(string \<Rightarrow> json option) \<Rightarrow> faults \<Rightarrow> query_params \<Rightarrow> db \<Rightarrow> response option \<times> db" where
  "match_new_handler parse F q d =
     (case parse (to_string (q_players q)) of
        None \<Rightarrow> (Some (respond 400 ''Invalid player data''), d)
      | Some players \<Rightarrow>
          (let winner = parseInt (to_string (q_winner q)) in
           if \<not> validateNewMatchData players
           then (Some (respond 400 ''Invalid player data''), d)
           else
             (case winner of
                None \<Rightarrow> (Some (respond 400 ''Invalid winner ID''), d)
              | Some w \<Rightarrow>
                  if w < 0 then (Some (respond 400 ''Invalid winner ID''), d)
                  else create_match F w players d)))"

text \<open>\<open>router.post('/new', authorize, handler)\<close>: the middleware first.\<close>

definition route_match_new ::
  "(string \<Rightarrow> json option) \<Rightarrow> faults \<Rightarrow> query_params \<Rightarrow> db \<Rightarrow> response option \<times> db" where
  "route_match_new parse F q d =
     (case authorize q of
        End r \<Rightarrow> (Some r, d)
      | Next \<Rightarrow> match_new_handler parse F q d)"

section \<open>The player router (player/index.js)\<close>

definition player_new_handler :: "faults \<Rightarrow> query_params \<Rightarrow> db \<Rightarrow> response option \<times> db" where
  "player_new_handler F q d =
     (case query F (InsertPlayer (q_name q) (q_nickname q)) d of
        Inl (e, d') \<Rightarrow> (Some (respond 500 ''Error creating player''), d')
      | Inr (rows, d') \<Rightarrow>
          (case rows of
             [] \<Rightarrow> (Some (respond 500 ''Error creating player''), d')
           | i # others \<Rightarrow> (Some (respond 200 (''Player ID: '' @ show_int i)), d')))"

text \<open>\<open>router.get('/new', authorize, handler)\<close>, mounted at \<open>/player\<close>.\<close>

definition route_player_new :: "faults \<Rightarrow> query_params \<Rightarrow> db \<Rightarrow> response option \<times> db" where
  "route_player_new F q d =
     (case authorize q of
        End r \<Rightarrow> (Some r, d)
      | Next \<Rightarrow> player_new_handler F q d)"

section \<open>The read handlers of index.js\<close>

text \<open>
  \<open>/player/:player_id/matches\<close>. The handler has no \<open>try\<close> around \<open>pool.query\<close>: when
  the query fails nothing is sent. \<open>substr(0, length - 1)\<close> chops the last comma.
\<close>

definition player_matches_route :: "faults \<Rightarrow> string \<Rightarrow> db \<Rightarrow> response option \<times> db" where
  "player_matches_route F player_id d =
     (case validateOnePlayerId player_id of
        Inl e \<Rightarrow> (Some (respond 200 ''invalid player id''), d)
      | Inr player \<Rightarrow>
          (case query F (SelectMatches player) d of
             Inl (e, d') \<Rightarrow> (None, d')
           | Inr (rows, d') \<Rightarrow>
               if length rows = 0 then (Some (respond 200 ''no matches found''), d')
               else
                 (let matchList = foldl (\<lambda>a b. a @ show_int b @ '','') [] rows
                  in (Some (respond 200 (take (length matchList - 1) matchList)), d'))))"

text \<open>
  Following the words of the claim on the match list: strings joined by single commas,
  with no trailing comma.
\<close>

fun comma_joined :: "string list \<Rightarrow> string" where
  "comma_joined [] = []"
| "comma_joined [x] = x"
| "comma_joined (x # y # ys) = x @ '','' @ comma_joined (y # ys)"

text \<open>
  The quotient \<open>wins / totalMatches\<close> of two counts as JavaScript computes it: a
  number, \<open>Infinity\<close> or \<open>NaN\<close>; no division throws. The text of a finite quotient
  (of the double nearest to it) is the parameter \<open>fmt\<close>.
\<close>

datatype jsnum = NaN | Infinity | Finite rat

definition js_divide :: "nat \<Rightarrow> nat \<Rightarrow> jsnum" where
  "js_divide a b =
     (if b = 0 then (if a = 0 then NaN else Infinity) else Finite (of_nat a / of_nat b))"

fun show_jsnum :: "(rat \<Rightarrow> string) \<Rightarrow> jsnum \<Rightarrow> string" where
  "show_jsnum fmt NaN = ''NaN''"
| "show_jsnum fmt Infinity = ''Infinity''"
| "show_jsnum fmt (Finite x) = fmt x"

definition newline :: string where
  "newline = [CHR 0x0A]"

text \<open>\<open>/scores/all/:player_id\<close>: four lines written, then \<open>res.end()\<close>.\<close>

definition scores_all :: "(rat \<Rightarrow> string) \<Rightarrow> faults \<Rightarrow> string \<Rightarrow> db \<Rightarrow> response option \<times> db" where
  "scores_all fmt F player_id d =
     (case validateOnePlayerId player_id of
        Inl e \<Rightarrow> (Some (respond 200 ''invalid player id''), d)
      | Inr player \<Rightarrow>
          (case query F (SelectWinners player) d of
             Inl (e, d') \<Rightarrow> (None, d')
           | Inr (rows, d') \<Rightarrow>
               (let totalMatches = length rows;
                    wins = foldl (\<lambda>total winner. total + (if winner = player then 1 else 0)) 0 rows
                in (Some (respond 200
                      (''matches: '' @ show_nat totalMatches @ newline @
                       ''wins: '' @ show_nat wins @ newline @
                       ''losses: '' @ show_int (int totalMatches - int wins) @ newline @
                       ''win percent: '' @ show_jsnum fmt (js_divide wins totalMatches) @ newline)),
                    d'))))"

section \<open>The Economy Store of the specification\<close>

text \<open>
  Modelled from the spec: the Economy Store, an external collaborator of which the
  repository has no code. It holds a balance per (owner, collectable type) key, read by
  \<open>getBalance\<close>.
\<close>

type_synonym economy = "string \<times> string \<Rightarrow> rat"

definition getBalance :: "economy \<Rightarrow> string \<Rightarrow> string \<Rightarrow> rat" where
  "getBalance E owner ty = E (owner, ty)"

datatype store_error = InsufficientBalanceError

text \<open>
  Modelled from the spec: \<open>debit\<close> of the Economy Store, which "returns success or
  InsufficientBalanceError": "a debit whose resulting balance would go below zero
  fails with InsufficientBalanceError". The result is the error, if any, and the store
  after the call.
\<close>

definition debit :: "economy \<Rightarrow> string \<Rightarrow> string \<Rightarrow> rat \<Rightarrow> store_error option \<times> economy" where
  "debit E owner ty amount =
     (let resulting = getBalance E owner ty - amount in
      if resulting < 0 then (Some InsufficientBalanceError, E)
      else (None, E((owner, ty) := resulting)))"

section \<open>Notions the properties are stated with\<close>

text \<open>
  The request fails the checks of the handler of \<open>/match/new\<close>: \<open>JSON.parse\<close>
  throws, or the winner is \<open>NaN\<close> or negative, or the data do not fit the schema.
\<close>

definition invalid_params :: "(string \<Rightarrow> json option) \<Rightarrow> query_params \<Rightarrow> bool" where
  "invalid_params parse q =
     (case parse (to_string (q_players q)) of
        None \<Rightarrow> True
      | Some players \<Rightarrow>
          (case parseInt (to_string (q_winner q)) of
             None \<Rightarrow> True
           | Some w \<Rightarrow> w < 0 \<or> \<not> validateNewMatchData players))"

text \<open>The test of the loop, \<open>player.id === -1\<close>, holds of the entry.\<close>

definition skipped :: "json \<Rightarrow> bool" where
  "skipped player = (get_prop player ''id'' = Inr (Some (JNum (- 1))))"

text \<open>A statement on \<open>player_matches\<close> or \<open>players\<close> sent for the player id \<open>x\<close>.\<close>

fun for_player :: "rat \<Rightarrow> event \<Rightarrow> bool" where
  "for_player x (Query (InsertPlayerMatch p m k dth)) = (p = Some x)"
| "for_player x (Query (UpdatePlayer won k dth p)) = (p = Some x)"
| "for_player x (Query Begin) = False"
| "for_player x (Query Commit) = False"
| "for_player x (Query (InsertMatch w)) = False"
| "for_player x (Query (InsertPlayer nm nick)) = False"
| "for_player x (Query (SelectMatches p)) = False"
| "for_player x (Query (SelectWinners p)) = False"
| "for_player x Connect = False"
| "for_player x Release = False"

text \<open>
  Between the states \<open>d\<close> and \<open>d'\<close> the log has only grown, and none of the calls
  added is a statement for the player id \<open>x\<close>.
\<close>

definition nothing_sent_for :: "rat \<Rightarrow> db \<Rightarrow> db \<Rightarrow> bool" where
  "nothing_sent_for x d d' =
     (take (length (log d)) (log d') = log d \<and>
      list_all (\<lambda>e. \<not> for_player x e) (drop (length (log d)) (log d')))"

text \<open>
  Following the words of the claim on the skipped entries, what "the match row and the
  mutations for every other entry are applied" means, written without the functions
  of the model of the database. The numbers an entry gives for its keys, the two
  statements sent for it, its row of \<open>player_matches\<close>, and what it adds to a row of
  \<open>players\<close> (NULL when either side is NULL): a match more, a win more for the winner,
  its kills and its deaths, on the rows with its id.
\<close>

definition entry_num :: "json \<Rightarrow> string \<Rightarrow> sqlnum" where
  "entry_num player k = (case get_prop player k of Inl e \<Rightarrow> None | Inr v \<Rightarrow> pg_num v)"

definition entry_statements :: "int \<Rightarrow> int \<Rightarrow> json \<Rightarrow> event list" where
  "entry_statements matchId winner player =
     [Query (InsertPlayerMatch (entry_num player ''id'') matchId
               (entry_num player ''kills'') (entry_num player ''deaths'')),
      Query (UpdatePlayer (entry_num player ''id'' = Some (of_int winner))
               (entry_num player ''kills'') (entry_num player ''deaths'')
               (entry_num player ''id''))]"

definition entry_row :: "int \<Rightarrow> json \<Rightarrow> pm_row" where
  "entry_row matchId player =
     \<lparr>pm_player = entry_num player ''id'', pm_match = matchId,
      pm_kills = entry_num player ''kills'', pm_deaths = entry_num player ''deaths''\<rparr>"

definition plus_null :: "sqlnum \<Rightarrow> sqlnum \<Rightarrow> sqlnum" where
  "plus_null a b = (case a of None \<Rightarrow> None | Some x \<Rightarrow> map_option (\<lambda>y. x + y) b)"

definition credited :: "int \<Rightarrow> json \<Rightarrow> player_row \<Rightarrow> player_row" where
  "credited winner player r =
     (if entry_num player ''id'' = Some (of_int (pl_id r))
      then \<lparr>pl_id = pl_id r, pl_name = pl_name r, pl_nickname = pl_nickname r,
            pl_matches = plus_null (pl_matches r) (Some 1),
            pl_wins = (if pl_id r = winner then plus_null (pl_wins r) (Some 1) else pl_wins r),
            pl_kills = plus_null (pl_kills r) (entry_num player ''kills''),
            pl_deaths = plus_null (pl_deaths r) (entry_num player ''deaths'')\<rparr>
      else r)"

text \<open>
  The tables once the match \<open>matchId\<close> and the entries \<open>kept\<close> are recorded: one more
  row of \<open>matches\<close>, a row of \<open>player_matches\<close> for each entry, in their order, and
  every row of \<open>players\<close> credited with each entry in turn.
\<close>

definition tables_after :: "int \<Rightarrow> int \<Rightarrow> json list \<Rightarrow> tables \<Rightarrow> tables" where
  "tables_after matchId winner kept t =
     \<lparr>players_tbl = map (\<lambda>r. foldl (\<lambda>r' p. credited winner p r') r kept) (players_tbl t),
      matches_tbl = matches_tbl t @ [\<lparr>ma_id = matchId, ma_winner = winner\<rparr>],
      player_matches_tbl = player_matches_tbl t @ map (entry_row matchId) kept\<rparr>"

text \<open>
  The claim on the counters: a counter is a number that is not negative (NULL is
  not), a counter has not decreased when SQL's \<open>a <= b\<close> is true of its old and new
  value, and the entry of the player data carries numbers for \<open>kills\<close> and \<open>deaths\<close>.
\<close>

definition nonneg :: "sqlnum \<Rightarrow> bool" where
  "nonneg c = (case c of None \<Rightarrow> False | Some x \<Rightarrow> 0 \<le> x)"

definition sql_le :: "sqlnum \<Rightarrow> sqlnum \<Rightarrow> bool" where
  "sql_le a b =
     (case a of
        None \<Rightarrow> False
      | Some x \<Rightarrow> (case b of None \<Rightarrow> False | Some y \<Rightarrow> x \<le> y))"

definition counters :: "player_row \<Rightarrow> sqlnum list" where
  "counters r = [pl_matches r, pl_wins r, pl_kills r, pl_deaths r]"

definition counters_ok :: "tables \<Rightarrow> bool" where
  "counters_ok t = list_all (\<lambda>r. list_all nonneg (counters r)) (players_tbl t)"

definition counters_grown :: "tables \<Rightarrow> tables \<Rightarrow> bool" where
  "counters_grown t t' =
     list_all2 (\<lambda>r r'. pl_id r' = pl_id r \<and> list_all2 sql_le (counters r) (counters r'))
       (players_tbl t) (players_tbl t')"

fun is_number :: "js_error + json option \<Rightarrow> bool" where
  "is_number (Inr (Some (JNum x))) = True"
| "is_number (Inr (Some JNull)) = False"
| "is_number (Inr (Some (JBool b))) = False"
| "is_number (Inr (Some (JStr s))) = False"
| "is_number (Inr (Some (JArr xs))) = False"
| "is_number (Inr (Some (JObj kvs))) = False"
| "is_number (Inr None) = False"
| "is_number (Inl e) = False"

definition has_stats :: "json \<Rightarrow> bool" where
  "has_stats player = (is_number (get_prop player ''kills'') \<and> is_number (get_prop player ''deaths''))"

text \<open>
  What holds of the connection while the players are recorded: nothing is committed
  yet (the committed tables are \<open>c0\<close>), and in the working copy of the transaction
  the counters are not negative and have not decreased since \<open>t0\<close>.
\<close>

definition recording :: "tables \<Rightarrow> tables \<Rightarrow> db \<Rightarrow> bool" where
  "recording c0 t0 d =
     (committed d = c0 \<and>
      (case conn d of
         InTxn t \<Rightarrow> counters_ok t \<and> counters_grown t0 t
       | Idle \<Rightarrow> False
       | Aborted \<Rightarrow> False))"

section \<open>Sample requests and states\<close>

text \<open>A database that never fails, and one that rejects one statement.\<close>

definition no_faults :: faults where
  "no_faults past e = False"

definition rejecting :: "stmt \<Rightarrow> faults" where
  "rejecting s past e = (e = Query s)"

text \<open>
  The rows of the players 1 and 2, with all counters 0 and no match played, and the
  rows of two earlier matches of the players 7 and 8 (match 3, which player 7 won, and
  match 12, which player 8 won, played by player 7 alone); the rows of the players 7
  and 8 in \<open>players\<close> are left out.
\<close>

definition new_player :: "int \<Rightarrow> player_row" where
  "new_player i =
     \<lparr>pl_id = i, pl_name = QStr ''p'', pl_nickname = QUndefined,
      pl_matches = Some 0, pl_wins = Some 0, pl_kills = Some 0, pl_deaths = Some 0\<rparr>"

definition sample_tables :: tables where
  "sample_tables =
     \<lparr>players_tbl = [new_player 1, new_player 2],
      matches_tbl = [\<lparr>ma_id = 3, ma_winner = 7\<rparr>, \<lparr>ma_id = 12, ma_winner = 8\<rparr>],
      player_matches_tbl =
        [\<lparr>pm_player = Some 7, pm_match = 3, pm_kills = Some 4, pm_deaths = Some 1\<rparr>,
         \<lparr>pm_player = Some 8, pm_match = 3, pm_kills = Some 1, pm_deaths = Some 4\<rparr>,
         \<lparr>pm_player = Some 7, pm_match = 12, pm_kills = Some 0, pm_deaths = Some 2\<rparr>]\<rparr>"

definition sample_db :: db where
  "sample_db =
     \<lparr>committed = sample_tables, conn = Idle, match_seq = 13, player_seq = 9,
      counter_default = Some 0, log = []\<rparr>"

text \<open>
  \<open>JSON.parse\<close> on the payloads of the examples; every other text the examples use
  is not JSON, and \<open>JSON.parse\<close> throws on it.
\<close>

definition sample_parse :: "string \<Rightarrow> json option" where
  \<open>sample_parse s =
     (if s = ''[{"id":1,"kills":2,"deaths":0},{"id":2,"kills":0,"deaths":3}]''
      then Some (JArr [JObj [(''id'', JNum 1), (''kills'', JNum 2), (''deaths'', JNum 0)],
                       JObj [(''id'', JNum 2), (''kills'', JNum 0), (''deaths'', JNum 3)]])
      else if s = ''[{"id":-1,"kills":5,"deaths":5},{"id":1,"kills":2,"deaths":0}]''
      then Some (JArr [JObj [(''id'', JNum (- 1)), (''kills'', JNum 5), (''deaths'', JNum 5)],
                       JObj [(''id'', JNum 1), (''kills'', JNum 2), (''deaths'', JNum 0)]])
      else if s = ''[{"id":1}]''
      then Some (JArr [JObj [(''id'', JNum 1)]])
      else if s = ''[]''
      then Some (JArr [])
      else None)\<close>

definition request :: "string \<Rightarrow> string \<Rightarrow> string \<Rightarrow> query_params" where
  "request auth players winner =
     \<lparr>q_auth = QStr auth, q_players = QStr players, q_winner = QStr winner,
      q_name = QUndefined, q_nickname = QUndefined\<rparr>"

section \<open>Evaluation on the samples\<close>

lemmas eval_defs = route_match_new_def match_new_handler_def create_match_def match_txn_def
  authorize_def request_def sample_parse_def respond_def connect_def release_def query_def
  no_faults_def rejecting_def sample_db_def sample_tables_def new_player_def
  property_ok_def current_def write_tables_def update_row_def Let_def

lemma parseInt_zero: "parseInt ''0'' = Some 0"
  by (simp add: parseInt_def is_ws_def digit_val_def)

lemma parseInt_one: "parseInt ''1'' = Some 1"
  by (simp add: parseInt_def is_ws_def digit_val_def)

lemma parseInt_two: "parseInt ''2'' = Some 2"
  by (simp add: parseInt_def is_ws_def digit_val_def)

lemma parseInt_seven: "parseInt ''7'' = Some 7"
  by (simp add: parseInt_def is_ws_def digit_val_def)

lemma parseInt_one_point_five: "parseInt ''1.5'' = Some 1"
  by (simp add: parseInt_def is_ws_def digit_val_def)

lemma show_nat_0: "show_nat 0 = ''0''"
  by (simp add: show_nat.simps)

lemma show_int_0: "show_int 0 = ''0''"
  by (simp add: show_int_def show_nat.simps)

lemma show_int_3: "show_int 3 = ''3''"
  by (simp add: show_int_def show_nat.simps)

lemma show_int_12: "show_int 12 = ''12''"
  by (simp add: show_int_def show_nat.simps)

lemma show_int_13: "show_int 13 = ''13''"
  by (simp add: show_int_def show_nat.simps)

section \<open>Authorization and the checks of the parameters\<close>

text \<open>
  C1: an invocation of \<open>/match/new\<close> or of \<open>/player/new\<close> whose \<open>auth\<close> parameter is
  not the string \<open>'secret'\<close> is answered 403 \<open>Not authorized\<close>, and the state of the
  database is the one before: its tables are untouched and its log has no new call, so
  no connection was taken and no statement was sent.
\<close>

theorem unauthorized_rejected:
  "q_auth q \<noteq> QStr ''secret'' \<Longrightarrow>
     route_match_new parse F q d = (Some (respond 403 ''Not authorized''), d) \<and>
     route_player_new F q d = (Some (respond 403 ''Not authorized''), d)"
  by (simp add: route_match_new_def route_player_new_def authorize_def)

text \<open>
  C1, witness: the caller sends \<open>auth=guess\<close> with player data and a winner that are
  valid.
\<close>

theorem unauthorized_rejected_witness:
  \<open>q_auth (request ''guess'' ''[{"id":1}]'' ''1'') \<noteq> QStr ''secret'' \<and>
   route_match_new sample_parse no_faults (request ''guess'' ''[{"id":1}]'' ''1'') sample_db =
     (Some (respond 403 ''Not authorized''), sample_db) \<and>
   route_player_new no_faults (request ''guess'' ''[{"id":1}]'' ''1'') sample_db =
     (Some (respond 403 ''Not authorized''), sample_db)\<close>
  using unauthorized_rejected [of \<open>request ''guess'' ''[{"id":1}]'' ''1''\<close> sample_parse no_faults sample_db]
  by (simp add: request_def)

lemma create_match_status:
  "fst (create_match F w players d) = Some r \<Longrightarrow> status r = 500 \<or> status r = 200"
  by (auto simp: create_match_def respond_def split: sum.splits prod.splits)

lemma handler_400:
  "(\<exists>r. fst (match_new_handler parse F q d) = Some r \<and> status r = 400) = invalid_params parse q"
  using create_match_status [of F _ _ d]
  by (fastforce simp: match_new_handler_def invalid_params_def respond_def Let_def
        split: option.splits if_splits)

lemma handler_not_403:
  "fst (match_new_handler parse F q d) = Some r \<Longrightarrow> status r \<noteq> 403"
  using create_match_status [of F _ _ d r]
  by (auto simp: match_new_handler_def respond_def Let_def split: option.splits if_splits)

lemma handler_invalid:
  assumes "invalid_params parse q"
  shows "match_new_handler parse F q d =
           (Some (respond 400
              (if parse (to_string (q_players q)) = None then ''Invalid player data''
               else if \<not> validateNewMatchData (the (parse (to_string (q_players q))))
               then ''Invalid player data'' else ''Invalid winner ID'')), d)"
  using assms
  by (auto simp: match_new_handler_def invalid_params_def Let_def split: option.splits)

lemma handler_valid:
  assumes "\<not> invalid_params parse q" and "parse (to_string (q_players q)) = Some players"
    and "parseInt (to_string (q_winner q)) = Some w"
  shows "match_new_handler parse F q d = create_match F w players d"
  using assms
  by (simp add: match_new_handler_def invalid_params_def Let_def)

text \<open>
  C4 (as stated, refuted): the order is not Bind then Authorize. A caller who is not
  authorized and whose parameters are invalid (the player data are not JSON, the
  winner is negative) is answered 403 \<open>Not authorized\<close>, not the failure of the
  parameters; the handler alone, which runs only once \<open>authorize\<close> has passed the
  request on, would have answered 400.
\<close>

theorem authorization_checked_first:
  "route_match_new sample_parse no_faults (request ''guess'' ''oops'' ''-5'') sample_db =
     (Some (respond 403 ''Not authorized''), sample_db) \<and>
   match_new_handler sample_parse no_faults (request ''guess'' ''oops'' ''-5'') sample_db =
     (Some (respond 400 ''Invalid player data''), sample_db)"
  by (simp add: route_match_new_def match_new_handler_def authorize_def request_def
        sample_parse_def)

text \<open>
  C4 (amended): the order is Authorize then Bind. An invocation of \<open>/match/new\<close> is
  answered 403 exactly when the caller is not authorized, whatever its parameters, and
  it is answered 400 exactly when the caller is authorized and the parameters fail the
  checks.
\<close>

theorem authorize_then_bind:
  "((\<exists>r. fst (route_match_new parse F q d) = Some r \<and> status r = 403) = (authorize q \<noteq> Next)) \<and>
   ((\<exists>r. fst (route_match_new parse F q d) = Some r \<and> status r = 400) =
      (authorize q = Next \<and> invalid_params parse q))"
proof (cases "authorize q")
  case Next
  then show ?thesis
    using handler_400 [of parse F q d] handler_not_403 [of parse F q d]
    by (auto simp: route_match_new_def)
next
  case (End r)
  then have "r = respond 403 ''Not authorized''"
    by (simp add: authorize_def split: if_splits)
  with End show ?thesis
    by (simp add: route_match_new_def respond_def)
qed

text \<open>
  C4, witness: the same invalid parameters from an authorized caller are answered 400,
  and not 403.
\<close>

theorem authorize_then_bind_witness:
  "authorize (request ''secret'' ''oops'' ''-5'') = Next \<and>
   invalid_params sample_parse (request ''secret'' ''oops'' ''-5'') \<and>
   (\<exists>r. fst (route_match_new sample_parse no_faults (request ''secret'' ''oops'' ''-5'') sample_db)
          = Some r \<and> status r = 400) \<and>
   \<not> (\<exists>r. fst (route_match_new sample_parse no_faults (request ''secret'' ''oops'' ''-5'') sample_db)
          = Some r \<and> status r = 403)"
  using authorize_then_bind [of sample_parse no_faults "request ''secret'' ''oops'' ''-5''" sample_db]
  by (simp add: authorize_def request_def invalid_params_def sample_parse_def)

text \<open>
  C5 (as stated, refuted): not every invocation whose parameters fail validation is
  answered 400. The player data \<open>[]\<close> violate \<open>minItems\<close>, and a caller who is not
  authorized is answered 403. And the winner \<open>1.5\<close> is not a non-negative integer, but
  \<open>parseInt\<close> reads it as 1: the handler accepts it and creates the match.
\<close>

theorem validation_not_always_400:
  \<open>invalid_params sample_parse (request ''guess'' ''[]'' ''1'') \<and>
   route_match_new sample_parse no_faults (request ''guess'' ''[]'' ''1'') sample_db =
     (Some (respond 403 ''Not authorized''), sample_db) \<and>
   fst (route_match_new sample_parse no_faults
     (request ''secret'' ''[{"id":1,"kills":2,"deaths":0},{"id":2,"kills":0,"deaths":3}]'' ''1.5'')
     sample_db) = Some (respond 200 ''Match ID: 13'')\<close>
proof (intro conjI)
  show "invalid_params sample_parse (request ''guess'' ''[]'' ''1'')"
    by (simp add: request_def invalid_params_def sample_parse_def parseInt_one)
  show "route_match_new sample_parse no_faults (request ''guess'' ''[]'' ''1'') sample_db =
     (Some (respond 403 ''Not authorized''), sample_db)"
    by (simp add: route_match_new_def authorize_def request_def)
  show \<open>fst (route_match_new sample_parse no_faults
     (request ''secret'' ''[{"id":1,"kills":2,"deaths":0},{"id":2,"kills":0,"deaths":3}]'' ''1.5'')
     sample_db) = Some (respond 200 ''Match ID: 13'')\<close>
    by (simp add: eval_defs parseInt_one_point_five show_int_13)
qed

text \<open>
  C5 (amended): when the parameters fail the checks (\<open>JSON.parse\<close> throws, the data do
  not fit the schema, the winner is \<open>NaN\<close> or negative), the handler answers 400 and
  leaves the state of the database as it was: no connection is taken and no statement
  is sent. The route answers with the handler when the caller is authorized and with
  403 otherwise, and in both cases the state is the one before.
\<close>

theorem invalid_params_no_effect:
  assumes "invalid_params parse q"
  shows "map_option status (fst (match_new_handler parse F q d)) = Some 400 \<and>
         snd (match_new_handler parse F q d) = d \<and>
         route_match_new parse F q d =
           (if authorize q = Next then match_new_handler parse F q d
            else (Some (respond 403 ''Not authorized''), d)) \<and>
         snd (route_match_new parse F q d) = d"
  using handler_invalid [OF assms, of F d]
  by (simp add: route_match_new_def authorize_def respond_def)

text \<open>C5, witness: an authorized caller sends the player data \<open>[]\<close>.\<close>

theorem invalid_params_no_effect_witness:
  "invalid_params sample_parse (request ''secret'' ''[]'' ''1'') \<and>
   route_match_new sample_parse no_faults (request ''secret'' ''[]'' ''1'') sample_db =
     (Some (respond 400 ''Invalid player data''), sample_db)"
proof -
  have i: "invalid_params sample_parse (request ''secret'' ''[]'' ''1'')"
    by (simp add: request_def invalid_params_def sample_parse_def parseInt_one)
  from invalid_params_no_effect [OF i, of no_faults sample_db] i show ?thesis
    by (simp add: match_new_handler_def authorize_def request_def sample_parse_def)
qed

section \<open>The transaction of a new match\<close>

lemma draw_id_keeps:
  "committed (draw_id s d) = committed d"
  "conn (draw_id s d) = conn d"
  "log (draw_id s d) = log d"
  by (cases s; simp)+

lemma query_fail_committed:
  "query F s d = Inl (e, d') \<Longrightarrow> committed d' = committed d"
  by (auto simp: query_def Let_def draw_id_keeps split: if_splits)

lemma query_in_txn:
  assumes "query F s d = Inr (rows, d')" and "conn d = InTxn t" and "s \<noteq> Commit"
  shows "committed d' = committed d \<and> (\<exists>t'. conn d' = InTxn t')"
  using assms
  by (cases s) (auto simp: query_def Let_def write_tables_def split: if_splits)

lemma query_begin:
  assumes "query F Begin d = Inr (rows, d')"
  shows "committed d' = committed d \<and> (\<exists>t'. conn d' = InTxn t')"
  using assms
  by (cases "conn d") (auto simp: query_def Let_def split: if_splits)

lemma record_players_in_txn:
  "conn d = InTxn t \<Longrightarrow>
   (case record_players F m w ps d of
      Inl (e, d') \<Rightarrow> committed d' = committed d
    | Inr d' \<Rightarrow> committed d' = committed d \<and> (\<exists>t'. conn d' = InTxn t'))"
proof (induction ps arbitrary: d t)
  case Nil
  then show ?case by simp
next
  case (Cons p ps)
  show ?case
  proof (cases "get_prop p ''id''")
    case (Inl e)
    then show ?thesis by simp
  next
    case (Inr pid)
    show ?thesis
    proof (cases "pid = Some (JNum (- 1))")
      case True
      with Inr Cons.IH [OF Cons.prems] show ?thesis by simp
    next
      case False
      obtain kills where k: "get_prop p ''kills'' = Inr kills"
        using Inr by (cases p) simp_all
      obtain deaths where dt: "get_prop p ''deaths'' = Inr deaths"
        using Inr by (cases p) simp_all
      let ?ins = "InsertPlayerMatch (pg_num pid) m (pg_num kills) (pg_num deaths)"
      let ?upd = "UpdatePlayer (pid = Some (JNum (of_int w))) (pg_num kills) (pg_num deaths) (pg_num pid)"
      show ?thesis
      proof (cases "query F ?ins d")
        case (Inl err)
        obtain e1 d1 where err: "err = (e1, d1)" by (cases err)
        from query_fail_committed [OF Inl [unfolded err]] have "committed d1 = committed d" .
        with Inr False k dt Inl err show ?thesis by simp
      next
        case ins: (Inr r1)
        obtain rows1 d1 where r1: "r1 = (rows1, d1)" by (cases r1)
        from query_in_txn [OF ins [unfolded r1] Cons.prems]
        obtain t1 where c1: "committed d1 = committed d" and t1: "conn d1 = InTxn t1" by auto
        show ?thesis
        proof (cases "query F ?upd d1")
          case (Inl err)
          obtain e2 d2 where err: "err = (e2, d2)" by (cases err)
          from query_fail_committed [OF Inl [unfolded err]] have "committed d2 = committed d1" .
          with Inr False k dt ins r1 c1 Inl err show ?thesis by simp
        next
          case upd: (Inr r2)
          obtain rows2 d2 where r2: "r2 = (rows2, d2)" by (cases r2)
          from query_in_txn [OF upd [unfolded r2] t1]
          obtain t2 where c2: "committed d2 = committed d1" and t2: "conn d2 = InTxn t2" by auto
          from Cons.IH [OF t2] c1 c2
          have "case record_players F m w ps d2 of
                  Inl (e, d') \<Rightarrow> committed d' = committed d
                | Inr d' \<Rightarrow> committed d' = committed d \<and> (\<exists>t'. conn d' = InTxn t')"
            by (simp split: sum.splits prod.splits)
          with Inr False k dt ins r1 upd r2 show ?thesis by simp
        qed
      qed
    qed
  qed
qed

lemma record_players_fail_committed:
  "record_players F m w ps d = Inl (e, d') \<Longrightarrow> conn d = InTxn t \<Longrightarrow> committed d' = committed d"
  using record_players_in_txn [of d t F m w ps] by simp

lemma record_players_ok_committed:
  "record_players F m w ps d = Inr d' \<Longrightarrow> conn d = InTxn t \<Longrightarrow>
     committed d' = committed d \<and> (\<exists>t'. conn d' = InTxn t')"
  using record_players_in_txn [of d t F m w ps] by simp

lemma match_txn_fail_committed:
  assumes "match_txn F w players d = Inl (e, d')"
  shows "committed d' = committed d"
proof (cases "query F Begin d")
  case (Inl err)
  with assms query_fail_committed [of F Begin d e d'] show ?thesis
    by (simp add: match_txn_def)
next
  case b: (Inr r0)
  obtain rows0 d1 where r0: "r0 = (rows0, d1)" by (cases r0)
  from query_begin [OF b [unfolded r0]]
  obtain t1 where c1: "committed d1 = committed d" and t1: "conn d1 = InTxn t1" by auto
  show ?thesis
  proof (cases "query F (InsertMatch w) d1")
    case (Inl err)
    with assms b r0 c1 query_fail_committed [of F "InsertMatch w" d1 e d'] show ?thesis
      by (simp add: match_txn_def)
  next
    case i: (Inr r)
    obtain rows d2 where r: "r = (rows, d2)" by (cases r)
    from query_in_txn [OF i [unfolded r] t1]
    obtain t2 where c2: "committed d2 = committed d1" and t2: "conn d2 = InTxn t2" by auto
    show ?thesis
    proof (cases rows)
      case Nil
      with assms b r0 i r c1 c2 show ?thesis by (simp add: match_txn_def)
    next
      case (Cons matchId others)
      show ?thesis
      proof (cases "elements players")
        case (Inl x)
        with assms b r0 i r c1 c2 Cons show ?thesis by (simp add: match_txn_def)
      next
        case el: (Inr items)
        show ?thesis
        proof (cases "record_players F matchId w items d2")
          case (Inl err)
          with assms b r0 i r c1 c2 Cons el
            record_players_fail_committed [of F matchId w items d2 e d' t2] t2
          show ?thesis by (simp add: match_txn_def)
        next
          case rp: (Inr d3)
          from record_players_ok_committed [OF rp t2]
          have c3: "committed d3 = committed d2" by simp
          show ?thesis
          proof (cases "query F Commit d3")
            case (Inl err)
            with assms b r0 i r c1 c2 c3 Cons el rp query_fail_committed [of F Commit d3 e d']
            show ?thesis by (simp add: match_txn_def)
          next
            case (Inr r1)
            with assms b r0 i r Cons el rp show ?thesis
              by (simp add: match_txn_def split: prod.splits)
          qed
        qed
      qed
    qed
  qed
qed

lemma release_committed: "committed (release d) = committed d"
  by (simp add: release_def)

lemma connect_committed: "connect F d = Inr d1 \<Longrightarrow> committed d1 = committed d"
  by (auto simp: connect_def split: if_splits)

lemma create_match_500:
  assumes "fst (create_match F w players d) = Some r" and "status r = 500"
  shows "committed (snd (create_match F w players d)) = committed d"
proof (cases "connect F d")
  case (Inl err)
  with assms show ?thesis by (simp add: create_match_def split: prod.splits)
next
  case c: (Inr d1)
  show ?thesis
  proof (cases "match_txn F w players d1")
    case (Inl err)
    obtain e d2 where err: "err = (e, d2)" by (cases err)
    from match_txn_fail_committed [OF Inl [unfolded err]] connect_committed [OF c]
    have "committed d2 = committed d" by simp
    with c Inl err show ?thesis by (simp add: create_match_def release_committed)
  next
    case (Inr ok)
    with assms c show ?thesis
      by (auto simp: create_match_def respond_def split: prod.splits)
  qed
qed

lemma handler_500:
  assumes "fst (match_new_handler parse F q d) = Some r" and "status r = 500"
  shows "committed (snd (match_new_handler parse F q d)) = committed d"
  using assms create_match_500 [of F _ _ d r]
  by (auto simp: match_new_handler_def respond_def Let_def split: option.splits if_splits)

text \<open>
  C2 (as stated, refuted): the players of one invocation are not recorded in
  independent transactions, and what was done for the earlier players does not persist
  when a later one fails. Two players are sent and the database rejects the row of
  \<open>player_matches\<close> of the second (say player 2 is unknown to it): the INSERT and the
  UPDATE of player 1 were sent, the answer is 500, and the committed tables are those
  before the invocation (player 1 has no match, the match has no row).
\<close>

theorem partial_application_refuted:
  \<open>route_match_new sample_parse (rejecting (InsertPlayerMatch (Some 2) 13 (Some 0) (Some 3)))
     (request ''secret'' ''[{"id":1,"kills":2,"deaths":0},{"id":2,"kills":0,"deaths":3}]'' ''1'')
     sample_db =
   (Some (respond 500 ''Match creation failed''),
    sample_db\<lparr>conn := Aborted, match_seq := 14,
      log := [Connect, Query Begin, Query (InsertMatch 1),
              Query (InsertPlayerMatch (Some 1) 13 (Some 2) (Some 0)),
              Query (UpdatePlayer True (Some 2) (Some 0) (Some 1)),
              Query (InsertPlayerMatch (Some 2) 13 (Some 0) (Some 3)),
              Release]\<rparr>)\<close>
  by (simp add: eval_defs parseInt_one)

text \<open>
  C2 (amended): the match and all its players are recorded in one transaction, between
  BEGIN and COMMIT. When the invocation fails while recording (it answers 500), it has
  committed nothing: the committed tables after it are the committed tables before
  it, the rows and counters of the earlier players included.
\<close>

theorem failed_match_commits_nothing:
  assumes "fst (route_match_new parse F q d) = Some r" and "status r = 500"
  shows "committed (snd (route_match_new parse F q d)) = committed d"
  using assms handler_500 [of parse F q d r]
  by (auto simp: route_match_new_def split: mw_result.splits)

text \<open>
  C2, witness: both players are recorded and the database then fails on COMMIT.
\<close>

theorem failed_match_commits_nothing_witness:
  \<open>fst (route_match_new sample_parse (rejecting Commit)
      (request ''secret'' ''[{"id":1,"kills":2,"deaths":0},{"id":2,"kills":0,"deaths":3}]'' ''1'')
      sample_db) = Some (respond 500 ''Match creation failed'') \<and>
   status (respond 500 ''Match creation failed'') = 500 \<and>
   committed (snd (route_match_new sample_parse (rejecting Commit)
      (request ''secret'' ''[{"id":1,"kills":2,"deaths":0},{"id":2,"kills":0,"deaths":3}]'' ''1'')
      sample_db)) = sample_tables\<close>
proof -
  have r: \<open>fst (route_match_new sample_parse (rejecting Commit)
      (request ''secret'' ''[{"id":1,"kills":2,"deaths":0},{"id":2,"kills":0,"deaths":3}]'' ''1'')
      sample_db) = Some (respond 500 ''Match creation failed'')\<close>
    by (simp add: eval_defs parseInt_one)
  have s: "status (respond 500 ''Match creation failed'') = 500"
    by (simp add: respond_def)
  from failed_match_commits_nothing [OF r s] r s show ?thesis
    by (simp add: sample_db_def)
qed

text \<open>
  C6 (the code at the failing input): the schema does not require \<open>kills\<close> and
  \<open>deaths\<close>. The player data \<open>[{"id":1}]\<close> pass it, the UPDATE adds
  \<open>undefined\<close>, that is NULL, to both counters of player 1, and when the database
  accepts the statement the invocation answers with the id of the match and the two
  counters, which were 0, are NULL: neither non-negative nor at least what they were.
\<close>

theorem missing_kills_nulls_counters:
  \<open>validateNewMatchData (JArr [JObj [(''id'', JNum 1)]]) \<and>
   fst (route_match_new sample_parse no_faults (request ''secret'' ''[{"id":1}]'' ''1'') sample_db) =
     Some (respond 200 ''Match ID: 13'') \<and>
   players_tbl (committed (snd (route_match_new sample_parse no_faults
       (request ''secret'' ''[{"id":1}]'' ''1'') sample_db))) =
     [(new_player 1)\<lparr>pl_matches := Some 1, pl_wins := Some 1, pl_kills := None, pl_deaths := None\<rparr>,
      new_player 2]\<close>
  by (simp add: eval_defs parseInt_one show_int_13)

section \<open>The counters of the players\<close>

lemma sql_le_refl: "nonneg c \<Longrightarrow> sql_le c c"
  by (simp add: nonneg_def sql_le_def split: option.splits)

lemma sql_le_trans: "sql_le a b \<Longrightarrow> sql_le b c \<Longrightarrow> sql_le a c"
  by (auto simp: sql_le_def split: option.splits)

lemma sql_add_nonneg:
  "nonneg c \<Longrightarrow> nonneg k \<Longrightarrow> nonneg (sql_add c k) \<and> sql_le c (sql_add c k)"
  by (auto simp: nonneg_def sql_le_def split: option.splits)

lemma nonneg_one: "nonneg (Some 1)"
  by (simp add: nonneg_def)

lemma update_row_ok:
  assumes "list_all nonneg (counters r)" and "nonneg k" and "nonneg dth"
  shows "list_all nonneg (counters (update_row won k dth p r)) \<and>
         pl_id (update_row won k dth p r) = pl_id r \<and>
         list_all2 sql_le (counters r) (counters (update_row won k dth p r))"
  using assms sql_add_nonneg [of "pl_matches r" "Some 1"] sql_add_nonneg [of "pl_wins r" "Some 1"]
    sql_add_nonneg [of "pl_kills r" k] sql_add_nonneg [of "pl_deaths r" dth]
  by (simp add: update_row_def counters_def nonneg_one sql_le_refl)

lemma counters_grown_refl: "counters_ok t \<Longrightarrow> counters_grown t t"
  by (auto simp: counters_ok_def counters_grown_def list_all_iff list_all2_same counters_def
        sql_le_refl)

lemma counters_grown_trans:
  assumes "counters_grown t t1" and "counters_grown t1 t2"
  shows "counters_grown t t2"
proof -
  have inner: "list_all2 sql_le xs zs"
    if "list_all2 sql_le xs ys" and "list_all2 sql_le ys zs" for xs ys zs
    using sql_le_trans that by (rule list_all2_trans)
  show ?thesis
    unfolding counters_grown_def
  proof (rule list_all2_trans [OF _ assms(1) [unfolded counters_grown_def]
                                    assms(2) [unfolded counters_grown_def]])
    fix r r1 r2
    assume "pl_id r1 = pl_id r \<and> list_all2 sql_le (counters r) (counters r1)"
      and "pl_id r2 = pl_id r1 \<and> list_all2 sql_le (counters r1) (counters r2)"
    then show "pl_id r2 = pl_id r \<and> list_all2 sql_le (counters r) (counters r2)"
      using inner by auto
  qed
qed

lemma update_players_ok:
  assumes "counters_ok t" and "nonneg k" and "nonneg dth"
  shows "counters_ok (t\<lparr>players_tbl := map (update_row won k dth p) (players_tbl t)\<rparr>) \<and>
         counters_grown t (t\<lparr>players_tbl := map (update_row won k dth p) (players_tbl t)\<rparr>)"
  using assms update_row_ok [of _ k dth won p]
  by (auto simp: counters_ok_def counters_grown_def list_all_iff list_all2_map2 list_all2_same)

lemma recording_insert:
  assumes "query F (InsertPlayerMatch p m k dth) d = Inr (rows, d')" and "recording c0 t0 d"
  shows "recording c0 t0 d'"
  using assms
  by (auto simp: query_def Let_def recording_def write_tables_def current_def counters_ok_def
        counters_grown_def split: if_splits txn.splits)

lemma recording_insert_match:
  assumes "query F (InsertMatch w) d = Inr (rows, d')" and "recording c0 t0 d"
  shows "recording c0 t0 d'"
  using assms
  by (auto simp: query_def Let_def recording_def write_tables_def current_def counters_ok_def
        counters_grown_def split: if_splits txn.splits)

lemma recording_update:
  assumes "query F (UpdatePlayer won k dth p) d = Inr (rows, d')" and "recording c0 t0 d"
    and "nonneg k" and "nonneg dth"
  shows "recording c0 t0 d'"
proof -
  from assms(2) obtain t where t: "conn d = InTxn t" "counters_ok t" "counters_grown t0 t"
    and c: "committed d = c0"
    by (auto simp: recording_def split: txn.splits)
  from update_players_ok [OF t(2) assms(3,4), of won p] t(3)
  have "counters_ok (t\<lparr>players_tbl := map (update_row won k dth p) (players_tbl t)\<rparr>)"
    and "counters_grown t0 (t\<lparr>players_tbl := map (update_row won k dth p) (players_tbl t)\<rparr>)"
    by (auto intro: counters_grown_trans)
  with assms(1) t(1) c show ?thesis
    by (auto simp: query_def Let_def recording_def write_tables_def current_def split: if_splits)
qed


lemma stats_nonneg:
  assumes "validate_item p" and "has_stats p"
    and "get_prop p ''kills'' = Inr kills" and "get_prop p ''deaths'' = Inr deaths"
  shows "nonneg (pg_num kills) \<and> nonneg (pg_num deaths)"
proof -
  from assms(2,3,4) obtain k dth where kd: "kills = Some (JNum k)" "deaths = Some (JNum dth)"
    by (auto simp: has_stats_def elim!: is_number.elims)
  from assms(2,3) obtain kvs where p: "p = JObj kvs"
    by (cases p) (simp_all add: has_stats_def)
  from assms(1,3,4) kd p have "0 \<le> k" and "0 \<le> dth"
    by (simp_all add: property_ok_def)
  with kd show ?thesis by (simp add: nonneg_def)
qed

lemma record_players_recording:
  assumes "recording c0 t0 d" and "list_all validate_item ps"
    and "list_all (\<lambda>p. skipped p \<or> has_stats p) ps"
  shows "case record_players F m w ps d of
           Inl (e, d') \<Rightarrow> committed d' = c0
         | Inr d' \<Rightarrow> recording c0 t0 d'"
  using assms
proof (induction ps arbitrary: d)
  case Nil
  then show ?case by simp
next
  case (Cons p ps)
  from Cons.prems have c: "committed d = c0" by (simp add: recording_def)
  from Cons.prems have vs: "list_all validate_item ps" "list_all (\<lambda>p. skipped p \<or> has_stats p) ps"
    by simp_all
  show ?case
  proof (cases "get_prop p ''id''")
    case (Inl e)
    with c show ?thesis by simp
  next
    case (Inr pid)
    show ?thesis
    proof (cases "pid = Some (JNum (- 1))")
      case True
      with Inr Cons.IH [OF Cons.prems(1) vs] show ?thesis by simp
    next
      case False
      obtain kills where k: "get_prop p ''kills'' = Inr kills"
        using Inr by (cases p) simp_all
      obtain deaths where dt: "get_prop p ''deaths'' = Inr deaths"
        using Inr by (cases p) simp_all
      from Cons.prems Inr False have "validate_item p" and "has_stats p"
        by (simp_all add: skipped_def)
      from stats_nonneg [OF this k dt]
      have nk: "nonneg (pg_num kills)" and nd: "nonneg (pg_num deaths)" by simp_all
      let ?ins = "InsertPlayerMatch (pg_num pid) m (pg_num kills) (pg_num deaths)"
      let ?upd = "UpdatePlayer (pid = Some (JNum (of_int w))) (pg_num kills) (pg_num deaths) (pg_num pid)"
      show ?thesis
      proof (cases "query F ?ins d")
        case (Inl err)
        obtain e1 d1 where err: "err = (e1, d1)" by (cases err)
        from query_fail_committed [OF Inl [unfolded err]] c have "committed d1 = c0" by simp
        with Inr False k dt Inl err show ?thesis by simp
      next
        case ins: (Inr r1)
        obtain rows1 d1 where r1: "r1 = (rows1, d1)" by (cases r1)
        from recording_insert [OF ins [unfolded r1] Cons.prems(1)]
        have rec1: "recording c0 t0 d1" .
        then have c1: "committed d1 = c0" by (simp add: recording_def)
        show ?thesis
        proof (cases "query F ?upd d1")
          case (Inl err)
          obtain e2 d2 where err: "err = (e2, d2)" by (cases err)
          from query_fail_committed [OF Inl [unfolded err]] c1 have "committed d2 = c0" by simp
          with Inr False k dt ins r1 Inl err show ?thesis by simp
        next
          case upd: (Inr r2)
          obtain rows2 d2 where r2: "r2 = (rows2, d2)" by (cases r2)
          from recording_update [OF upd [unfolded r2] rec1 nk nd]
          have rec2: "recording c0 t0 d2" .
          from Cons.IH [OF rec2 vs] Inr False k dt ins r1 upd r2 show ?thesis by simp
        qed
      qed
    qed
  qed
qed

lemma recording_begin:
  assumes "query F Begin d = Inr (rows, d')" and "conn d = Idle" and "counters_ok (committed d)"
  shows "recording (committed d) (committed d) d'"
  using assms
  by (auto simp: query_def Let_def recording_def counters_grown_refl split: if_splits)

lemma recording_commit:
  assumes "query F Commit d = Inr (rows, d')" and "recording c0 t0 d"
  shows "counters_ok (committed d') \<and> counters_grown t0 (committed d')"
  using assms
  by (auto simp: query_def Let_def recording_def split: if_splits txn.splits)

lemma match_txn_counters:
  assumes "conn d = Idle" and "counters_ok (committed d)" and "list_all validate_item ps"
    and "list_all (\<lambda>p. skipped p \<or> has_stats p) ps"
  shows "case match_txn F w (JArr ps) d of
           Inl (e, d') \<Rightarrow> committed d' = committed d
         | Inr (m, d') \<Rightarrow>
             counters_ok (committed d') \<and> counters_grown (committed d) (committed d')"
proof (cases "query F Begin d")
  case (Inl err)
  obtain e1 d1 where err: "err = (e1, d1)" by (cases err)
  from query_fail_committed [OF Inl [unfolded err]] Inl err show ?thesis
    by (simp add: match_txn_def)
next
  case b: (Inr r0)
  obtain rows0 d1 where r0: "r0 = (rows0, d1)" by (cases r0)
  from recording_begin [OF b [unfolded r0] assms(1,2)]
  have rec1: "recording (committed d) (committed d) d1" .
  then have c1: "committed d1 = committed d" by (simp add: recording_def)
  show ?thesis
  proof (cases "query F (InsertMatch w) d1")
    case (Inl err)
    obtain e2 d2 where err: "err = (e2, d2)" by (cases err)
    from query_fail_committed [OF Inl [unfolded err]] c1 b r0 Inl err show ?thesis
      by (simp add: match_txn_def)
  next
    case i: (Inr r)
    obtain rows d2 where r: "r = (rows, d2)" by (cases r)
    from recording_insert_match [OF i [unfolded r] rec1]
    have rec2: "recording (committed d) (committed d) d2" .
    then have c2: "committed d2 = committed d" by (simp add: recording_def)
    show ?thesis
    proof (cases rows)
      case Nil
      with b r0 i r c2 show ?thesis by (simp add: match_txn_def)
    next
      case (Cons matchId others)
      show ?thesis
      proof (cases "record_players F matchId w ps d2")
        case (Inl err)
        obtain e3 d3 where err: "err = (e3, d3)" by (cases err)
        from record_players_recording [OF rec2 assms(3,4), of F matchId w] Inl err
        have "committed d3 = committed d" by simp
        with b r0 i r Cons Inl err show ?thesis by (simp add: match_txn_def)
      next
        case rp: (Inr d3)
        from record_players_recording [OF rec2 assms(3,4), of F matchId w] rp
        have rec3: "recording (committed d) (committed d) d3" by simp
        then have c3: "committed d3 = committed d" by (simp add: recording_def)
        show ?thesis
        proof (cases "query F Commit d3")
          case (Inl err)
          obtain e4 d4 where err: "err = (e4, d4)" by (cases err)
          from query_fail_committed [OF Inl [unfolded err]] c3 b r0 i r Cons rp Inl err
          show ?thesis by (simp add: match_txn_def)
        next
          case cm: (Inr r1)
          obtain rows1 d4 where r1: "r1 = (rows1, d4)" by (cases r1)
          from recording_commit [OF cm [unfolded r1] rec3] b r0 i r Cons rp cm r1
          show ?thesis by (simp add: match_txn_def)
        qed
      qed
    qed
  qed
qed

lemma create_match_counters:
  assumes "conn d = Idle" and "counters_ok (committed d)" and "list_all validate_item ps"
    and "list_all (\<lambda>p. skipped p \<or> has_stats p) ps"
  shows "counters_ok (committed (snd (create_match F w (JArr ps) d))) \<and>
         counters_grown (committed d) (committed (snd (create_match F w (JArr ps) d)))"
proof (cases "connect F d")
  case (Inl err)
  then have "snd (create_match F w (JArr ps) d) = d"
    by (auto simp: create_match_def connect_def split: if_splits)
  with assms(2) show ?thesis by (simp add: counters_grown_refl)
next
  case c: (Inr d1)
  with assms(1) have d1: "conn d1 = Idle" "committed d1 = committed d"
    by (auto simp: connect_def split: if_splits)
  with assms(2) have ok1: "counters_ok (committed d1)" by simp
  note m = match_txn_counters [OF d1(1) ok1 assms(3,4), of F w]
  show ?thesis
  proof (cases "match_txn F w (JArr ps) d1")
    case (Inl err)
    obtain e d2 where err: "err = (e, d2)" by (cases err)
    from m Inl err d1(2) have "committed d2 = committed d" by simp
    with c Inl err assms(2) show ?thesis
      by (simp add: create_match_def release_def counters_grown_refl)
  next
    case (Inr ok)
    obtain mid d2 where ok: "ok = (mid, d2)" by (cases ok)
    from m Inr ok d1(2)
    have "counters_ok (committed d2)" and "counters_grown (committed d) (committed d2)"
      by simp_all
    with c Inr ok show ?thesis
      by (simp add: create_match_def release_def)
  qed
qed

text \<open>
  The counters of the accepted requests whose recorded entries all carry numbers for
  \<open>kills\<close> and \<open>deaths\<close>: on a connection with no transaction open, when no counter
  of the committed tables is negative before the invocation, none is after it, and no
  counter has decreased, whatever the database rejects.
\<close>

lemma counters_preserved:
  assumes "authorize q = Next" and "\<not> invalid_params parse q"
    and "parse (to_string (q_players q)) = Some (JArr ps)"
    and "list_all (\<lambda>p. skipped p \<or> has_stats p) ps"
    and "conn d = Idle" and "counters_ok (committed d)"
  shows "counters_ok (committed (snd (route_match_new parse F q d))) \<and>
         counters_grown (committed d) (committed (snd (route_match_new parse F q d)))"
proof -
  from assms(2,3) obtain w where w: "parseInt (to_string (q_winner q)) = Some w"
    and v: "list_all validate_item ps"
    by (auto simp: invalid_params_def split: option.splits)
  from assms(1,2,3) w have "route_match_new parse F q d = create_match F w (JArr ps) d"
    by (simp add: route_match_new_def handler_valid)
  with create_match_counters [OF assms(5,6) v assms(4), of F w] show ?thesis
    by simp
qed

section \<open>The entries with id -1\<close>

lemma exec_log: "log (snd (exec s d)) = log d"
  by (cases s) (simp_all add: write_tables_def split: txn.splits)

lemma query_log:
  "query F s d = Inl (e, d') \<Longrightarrow> log d' = log d @ [Query s]"
  "query F s d = Inr (rows, d') \<Longrightarrow> log d' = log d @ [Query s]"
  using exec_log [of s "d\<lparr>log := log d @ [Query s]\<rparr>"]
  by (auto simp: query_def Let_def draw_id_keeps split: if_splits)

lemma nothing_sent_for_refl: "nothing_sent_for x d d"
  by (simp add: nothing_sent_for_def)

lemma nothing_sent_for_iff:
  "nothing_sent_for x d d' =
     (\<exists>new. log d' = log d @ new \<and> list_all (\<lambda>e. \<not> for_player x e) new)"
proof
  assume "nothing_sent_for x d d'"
  then have "log d' = log d @ drop (length (log d)) (log d')"
    and "list_all (\<lambda>e. \<not> for_player x e) (drop (length (log d)) (log d'))"
    by (simp_all add: nothing_sent_for_def) (metis append_take_drop_id)
  then show "\<exists>new. log d' = log d @ new \<and> list_all (\<lambda>e. \<not> for_player x e) new"
    by blast
next
  assume "\<exists>new. log d' = log d @ new \<and> list_all (\<lambda>e. \<not> for_player x e) new"
  then show "nothing_sent_for x d d'"
    by (auto simp: nothing_sent_for_def)
qed

lemma nothing_sent_for_trans:
  "nothing_sent_for x d d1 \<Longrightarrow> nothing_sent_for x d1 d2 \<Longrightarrow> nothing_sent_for x d d2"
  by (auto simp: nothing_sent_for_iff)

lemma nothing_sent_for_step:
  "log d' = log d @ [e] \<Longrightarrow> \<not> for_player x e \<Longrightarrow> nothing_sent_for x d d'"
  by (simp add: nothing_sent_for_iff)

lemma pg_num_Some: "(pg_num v = Some x) = (v = Some (JNum x))"
  by (cases v rule: pg_num.cases) simp_all

lemma record_players_skip:
  "record_players F m w (filter (\<lambda>p. \<not> skipped p) ps) d = record_players F m w ps d"
proof (induction ps arbitrary: d)
  case Nil
  show ?case by simp
next
  case (Cons p ps)
  show ?case
  proof (cases "skipped p")
    case True
    with Cons.IH show ?thesis by (simp add: skipped_def)
  next
    case False
    with Cons.IH show ?thesis
      by (simp add: skipped_def split: sum.splits prod.splits)
  qed
qed

lemma record_players_nothing_sent:
  "case record_players F m w ps d of
     Inl (e, d') \<Rightarrow> nothing_sent_for (- 1) d d'
   | Inr d' \<Rightarrow> nothing_sent_for (- 1) d d'"
proof (induction ps arbitrary: d)
  case Nil
  show ?case by (simp add: nothing_sent_for_refl)
next
  case (Cons p ps)
  show ?case
  proof (cases "get_prop p ''id''")
    case (Inl e)
    then show ?thesis by (simp add: nothing_sent_for_refl)
  next
    case (Inr pid)
    show ?thesis
    proof (cases "pid = Some (JNum (- 1))")
      case True
      with Inr Cons.IH [of d] show ?thesis by simp
    next
      case False
      obtain kills where k: "get_prop p ''kills'' = Inr kills"
        using Inr by (cases p) simp_all
      obtain deaths where dt: "get_prop p ''deaths'' = Inr deaths"
        using Inr by (cases p) simp_all
      let ?ins = "InsertPlayerMatch (pg_num pid) m (pg_num kills) (pg_num deaths)"
      let ?upd = "UpdatePlayer (pid = Some (JNum (of_int w))) (pg_num kills) (pg_num deaths) (pg_num pid)"
      from False have ni: "\<not> for_player (- 1) (Query ?ins)" and nu: "\<not> for_player (- 1) (Query ?upd)"
        by (simp_all add: pg_num_Some)
      show ?thesis
      proof (cases "query F ?ins d")
        case (Inl err)
        obtain e1 d1 where err: "err = (e1, d1)" by (cases err)
        from nothing_sent_for_step [OF query_log(1) [OF Inl [unfolded err]] ni]
        have "nothing_sent_for (- 1) d d1" .
        with Inr False k dt Inl err show ?thesis by simp
      next
        case ins: (Inr r1)
        obtain rows1 d1 where r1: "r1 = (rows1, d1)" by (cases r1)
        from nothing_sent_for_step [OF query_log(2) [OF ins [unfolded r1]] ni]
        have s1: "nothing_sent_for (- 1) d d1" .
        show ?thesis
        proof (cases "query F ?upd d1")
          case (Inl err)
          obtain e2 d2 where err: "err = (e2, d2)" by (cases err)
          from nothing_sent_for_step [OF query_log(1) [OF Inl [unfolded err]] nu]
          have "nothing_sent_for (- 1) d1 d2" .
          with s1 have "nothing_sent_for (- 1) d d2" by (rule nothing_sent_for_trans)
          with Inr False k dt ins r1 Inl err show ?thesis by simp
        next
          case upd: (Inr r2)
          obtain rows2 d2 where r2: "r2 = (rows2, d2)" by (cases r2)
          from nothing_sent_for_step [OF query_log(2) [OF upd [unfolded r2]] nu]
          have "nothing_sent_for (- 1) d1 d2" .
          with s1 have s2: "nothing_sent_for (- 1) d d2" by (rule nothing_sent_for_trans)
          from Cons.IH [of d2] s2
          have "case record_players F m w ps d2 of
                  Inl (e, d') \<Rightarrow> nothing_sent_for (- 1) d d'
                | Inr d' \<Rightarrow> nothing_sent_for (- 1) d d'"
            by (auto split: sum.splits intro: nothing_sent_for_trans)
          with Inr False k dt ins r1 upd r2 show ?thesis by simp
        qed
      qed
    qed
  qed
qed

lemma match_txn_skip:
  "match_txn F w (JArr (filter (\<lambda>p. \<not> skipped p) ps)) d = match_txn F w (JArr ps) d"
  by (simp add: match_txn_def record_players_skip cong: sum.case_cong list.case_cong)

lemma create_match_skip:
  "create_match F w (JArr (filter (\<lambda>p. \<not> skipped p) ps)) d = create_match F w (JArr ps) d"
  by (simp add: create_match_def match_txn_skip cong: sum.case_cong)

lemma match_txn_nothing_sent:
  "case match_txn F w players d of
     Inl (e, d') \<Rightarrow> nothing_sent_for (- 1) d d'
   | Inr (m, d') \<Rightarrow> nothing_sent_for (- 1) d d'"
proof (cases "query F Begin d")
  case (Inl err)
  obtain e1 d1 where err: "err = (e1, d1)" by (cases err)
  from nothing_sent_for_step [OF query_log(1) [OF Inl [unfolded err]]]
  have "nothing_sent_for (- 1) d d1" by simp
  with Inl err show ?thesis by (simp add: match_txn_def)
next
  case b: (Inr r0)
  obtain rows0 d1 where r0: "r0 = (rows0, d1)" by (cases r0)
  from nothing_sent_for_step [OF query_log(2) [OF b [unfolded r0]]]
  have s1: "nothing_sent_for (- 1) d d1" by simp
  show ?thesis
  proof (cases "query F (InsertMatch w) d1")
    case (Inl err)
    obtain e2 d2 where err: "err = (e2, d2)" by (cases err)
    from nothing_sent_for_step [OF query_log(1) [OF Inl [unfolded err]]]
    have "nothing_sent_for (- 1) d1 d2" by simp
    with s1 have "nothing_sent_for (- 1) d d2" by (rule nothing_sent_for_trans)
    with b r0 Inl err show ?thesis by (simp add: match_txn_def)
  next
    case i: (Inr r)
    obtain rows d2 where r: "r = (rows, d2)" by (cases r)
    from nothing_sent_for_step [OF query_log(2) [OF i [unfolded r]]]
    have "nothing_sent_for (- 1) d1 d2" by simp
    with s1 have s2: "nothing_sent_for (- 1) d d2" by (rule nothing_sent_for_trans)
    show ?thesis
    proof (cases rows)
      case Nil
      with b r0 i r s2 show ?thesis by (simp add: match_txn_def)
    next
      case (Cons matchId others)
      show ?thesis
      proof (cases "elements players")
        case (Inl x)
        with b r0 i r s2 Cons show ?thesis by (simp add: match_txn_def)
      next
        case el: (Inr items)
        show ?thesis
        proof (cases "record_players F matchId w items d2")
          case (Inl err)
          obtain e3 d3 where err: "err = (e3, d3)" by (cases err)
          from record_players_nothing_sent
                 [where F = F and m = matchId and w = w and ps = items and d = d2] Inl err
          have "nothing_sent_for (- 1) d2 d3" by simp
          with s2 have "nothing_sent_for (- 1) d d3" by (rule nothing_sent_for_trans)
          with b r0 i r Cons el Inl err show ?thesis by (simp add: match_txn_def)
        next
          case rp: (Inr d3)
          from record_players_nothing_sent
                 [where F = F and m = matchId and w = w and ps = items and d = d2] rp
          have "nothing_sent_for (- 1) d2 d3" by simp
          with s2 have s3: "nothing_sent_for (- 1) d d3" by (rule nothing_sent_for_trans)
          show ?thesis
          proof (cases "query F Commit d3")
            case (Inl err)
            obtain e4 d4 where err: "err = (e4, d4)" by (cases err)
            from nothing_sent_for_step [OF query_log(1) [OF Inl [unfolded err]]]
            have "nothing_sent_for (- 1) d3 d4" by simp
            with s3 have "nothing_sent_for (- 1) d d4" by (rule nothing_sent_for_trans)
            with b r0 i r Cons el rp Inl err show ?thesis by (simp add: match_txn_def)
          next
            case c: (Inr r1)
            obtain rows1 d4 where r1: "r1 = (rows1, d4)" by (cases r1)
            from nothing_sent_for_step [OF query_log(2) [OF c [unfolded r1]]]
            have "nothing_sent_for (- 1) d3 d4" by simp
            with s3 have "nothing_sent_for (- 1) d d4" by (rule nothing_sent_for_trans)
            with b r0 i r Cons el rp c r1 show ?thesis by (simp add: match_txn_def)
          qed
        qed
      qed
    qed
  qed
qed

lemma release_nothing_sent: "nothing_sent_for x d (release d)"
  by (rule nothing_sent_for_step [of _ _ Release]) (simp_all add: release_def)

lemma create_match_nothing_sent:
  "nothing_sent_for (- 1) d (snd (create_match F w players d))"
proof (cases "connect F d")
  case (Inl err)
  then have "snd (create_match F w players d) = d"
    by (auto simp: create_match_def connect_def split: if_splits)
  then show ?thesis by (simp add: nothing_sent_for_refl)
next
  case c: (Inr d1)
  then have "log d1 = log d @ [Connect]"
    by (auto simp: connect_def split: if_splits)
  then have s1: "nothing_sent_for (- 1) d d1"
    by (rule nothing_sent_for_step) simp
  show ?thesis
  proof (cases "match_txn F w players d1")
    case (Inl err)
    obtain e d2 where err: "err = (e, d2)" by (cases err)
    from match_txn_nothing_sent [where F = F and w = w and players = players and d = d1] Inl err
    have "nothing_sent_for (- 1) d1 d2" by simp
    with s1 have "nothing_sent_for (- 1) d d2" by (rule nothing_sent_for_trans)
    then have "nothing_sent_for (- 1) d (release d2)"
      using release_nothing_sent by (rule nothing_sent_for_trans)
    with c Inl err show ?thesis by (simp add: create_match_def)
  next
    case (Inr ok)
    obtain m d2 where ok: "ok = (m, d2)" by (cases ok)
    from match_txn_nothing_sent [where F = F and w = w and players = players and d = d1] Inr ok
    have "nothing_sent_for (- 1) d1 d2" by simp
    with s1 have "nothing_sent_for (- 1) d d2" by (rule nothing_sent_for_trans)
    then have "nothing_sent_for (- 1) d (release d2)"
      using release_nothing_sent by (rule nothing_sent_for_trans)
    with c Inr ok show ?thesis by (simp add: create_match_def)
  qed
qed

lemma query_ok:
  "\<not> F (log d) (Query s) \<Longrightarrow> conn d \<noteq> Aborted \<Longrightarrow>
     query F s d = Inr (exec s (d\<lparr>log := log d @ [Query s]\<rparr>))"
  by (simp add: query_def Let_def)

lemma plus_null_sql_add: "plus_null a b = sql_add a b"
  by (cases a; cases b; simp add: plus_null_def)

lemma update_row_credited:
  assumes "get_prop p ''id'' = Inr pid" and "get_prop p ''kills'' = Inr kills"
    and "get_prop p ''deaths'' = Inr deaths"
  shows "update_row (pid = Some (JNum (of_int w))) (pg_num kills) (pg_num deaths) (pg_num pid) r =
           credited w p r"
proof (cases "pg_num pid = Some (of_int (pl_id r))")
  case True
  then have "pid = Some (JNum (of_int (pl_id r)))"
    by (simp add: pg_num_Some)
  with assms True show ?thesis
    by (simp add: update_row_def credited_def entry_num_def plus_null_sql_add)
next
  case False
  with assms show ?thesis
    by (simp add: update_row_def credited_def entry_num_def)
qed

lemma foldl_map_rows:
  "foldl (\<lambda>tbl p. map (f p) tbl) tbl ps = map (\<lambda>r. foldl (\<lambda>r' p. f p r') r ps) tbl"
  by (induction ps arbitrary: tbl) (simp_all add: comp_def)

lemma record_players_applied:
  assumes "\<forall>past e. \<not> F past e" and "conn d = InTxn t" and "list_all (\<lambda>p. p \<noteq> JNull) ps"
  shows "record_players F m w ps d =
     Inr (d\<lparr>conn := InTxn
               (t\<lparr>players_tbl := foldl (\<lambda>tbl p. map (credited w p) tbl) (players_tbl t)
                                     (filter (\<lambda>p. \<not> skipped p) ps),
                  player_matches_tbl := player_matches_tbl t @
                     map (entry_row m) (filter (\<lambda>p. \<not> skipped p) ps)\<rparr>),
            log := log d @ concat (map (entry_statements m w) (filter (\<lambda>p. \<not> skipped p) ps))\<rparr>)"
  using assms(2,3)
proof (induction ps arbitrary: d t)
  case Nil
  then show ?case by simp
next
  case (Cons p ps)
  from Cons.prems have nn: "p \<noteq> JNull" and rest: "list_all (\<lambda>p. p \<noteq> JNull) ps" by simp_all
  obtain pid where i: "get_prop p ''id'' = Inr pid" using nn by (cases p) simp_all
  obtain kills where k: "get_prop p ''kills'' = Inr kills" using nn by (cases p) simp_all
  obtain deaths where dt: "get_prop p ''deaths'' = Inr deaths" using nn by (cases p) simp_all
  show ?case
  proof (cases "skipped p")
    case True
    with i Cons.IH [OF Cons.prems(1) rest] show ?thesis by (simp add: skipped_def)
  next
    case False
    let ?ins = "InsertPlayerMatch (pg_num pid) m (pg_num kills) (pg_num deaths)"
    let ?upd = "UpdatePlayer (pid = Some (JNum (of_int w))) (pg_num kills) (pg_num deaths) (pg_num pid)"
    let ?d1 = "d\<lparr>log := log d @ [Query ?ins],
                 conn := InTxn (t\<lparr>player_matches_tbl := player_matches_tbl t @ [entry_row m p]\<rparr>)\<rparr>"
    let ?t2 = "t\<lparr>player_matches_tbl := player_matches_tbl t @ [entry_row m p],
                 players_tbl := map (credited w p) (players_tbl t)\<rparr>"
    let ?d2 = "d\<lparr>log := log d @ [Query ?ins, Query ?upd], conn := InTxn ?t2\<rparr>"
    have q1: "query F ?ins d = Inr ([], ?d1)"
      using assms(1) Cons.prems(1) i k dt
      by (simp add: query_ok write_tables_def current_def entry_row_def entry_num_def)
    have q2: "query F ?upd ?d1 = Inr ([], ?d2)"
      using assms(1) i k dt
      by (simp add: query_ok write_tables_def current_def update_row_credited [OF i k dt])
    have c2: "conn ?d2 = InTxn ?t2" by simp
    have st: "entry_statements m w p = [Query ?ins, Query ?upd]"
      using i k dt by (auto simp: entry_statements_def entry_num_def pg_num_Some)
    from False i k dt q1 q2 Cons.IH [OF c2 rest] st show ?thesis
      by (simp add: skipped_def)
  qed
qed


lemma match_txn_applied:
  assumes "\<forall>past e. \<not> F past e" and "conn d = Idle" and "list_all (\<lambda>p. p \<noteq> JNull) ps"
  shows "match_txn F w (JArr ps) d =
     Inr (match_seq d,
          d\<lparr>committed := tables_after (match_seq d) w (filter (\<lambda>p. \<not> skipped p) ps) (committed d),
            conn := Idle, match_seq := match_seq d + 1,
            log := log d @ [Query Begin, Query (InsertMatch w)] @
                   concat (map (entry_statements (match_seq d) w) (filter (\<lambda>p. \<not> skipped p) ps)) @
                   [Query Commit]\<rparr>)"
proof -
  let ?kept = "filter (\<lambda>p. \<not> skipped p) ps"
  let ?d1 = "d\<lparr>log := log d @ [Query Begin], conn := InTxn (committed d)\<rparr>"
  let ?t2 = "(committed d)\<lparr>matches_tbl := matches_tbl (committed d) @
                 [\<lparr>ma_id = match_seq d, ma_winner = w\<rparr>]\<rparr>"
  let ?d2 = "d\<lparr>log := log d @ [Query Begin, Query (InsertMatch w)], conn := InTxn ?t2,
               match_seq := match_seq d + 1\<rparr>"
  let ?t3 = "?t2\<lparr>players_tbl := foldl (\<lambda>tbl p. map (credited w p) tbl) (players_tbl ?t2) ?kept,
               player_matches_tbl := player_matches_tbl ?t2 @ map (entry_row (match_seq d)) ?kept\<rparr>"
  let ?d3 = "?d2\<lparr>conn := InTxn ?t3,
               log := log ?d2 @ concat (map (entry_statements (match_seq d) w) ?kept)\<rparr>"
  have q1: "query F Begin d = Inr ([], ?d1)"
    using assms(1,2) by (simp add: query_ok)
  have q2: "query F (InsertMatch w) ?d1 = Inr ([match_seq d], ?d2)"
    using assms(1) by (simp add: query_ok write_tables_def current_def)
  have c2: "conn ?d2 = InTxn ?t2" by simp
  have q3: "record_players F (match_seq d) w ps ?d2 = Inr ?d3"
    by (rule record_players_applied [OF assms(1) c2 assms(3)])
  have t3: "?t3 = tables_after (match_seq d) w ?kept (committed d)"
    by (simp add: tables_after_def foldl_map_rows)
  have q4: "query F Commit ?d3 =
      Inr ([], ?d3\<lparr>log := log ?d3 @ [Query Commit], committed := ?t3, conn := Idle\<rparr>)"
    using assms(1) by (simp add: query_ok)
  have "match_txn F w (JArr ps) d =
      Inr (match_seq d, ?d3\<lparr>log := log ?d3 @ [Query Commit], committed := ?t3, conn := Idle\<rparr>)"
    by (simp only: match_txn_def q1 q2 q3 q4 sum.case prod.case list.case elements.simps)
  then show ?thesis
    by (simp add: t3 [symmetric])
qed

lemma create_match_applied:
  assumes "\<forall>past e. \<not> F past e" and "conn d = Idle" and "list_all (\<lambda>p. p \<noteq> JNull) ps"
  shows "create_match F w (JArr ps) d =
     (Some (respond 200 (''Match ID: '' @ show_int (match_seq d))),
      d\<lparr>committed := tables_after (match_seq d) w (filter (\<lambda>p. \<not> skipped p) ps) (committed d),
        conn := Idle, match_seq := match_seq d + 1,
        log := log d @ [Connect, Query Begin, Query (InsertMatch w)] @
               concat (map (entry_statements (match_seq d) w) (filter (\<lambda>p. \<not> skipped p) ps)) @
               [Query Commit, Release]\<rparr>)"
proof -
  let ?d1 = "d\<lparr>log := log d @ [Connect]\<rparr>"
  have c: "connect F d = Inr ?d1"
    using assms(1) by (simp add: connect_def)
  have c1: "conn ?d1 = Idle" using assms(2) by simp
  have "create_match F w (JArr ps) d =
      (Some (respond 200 (''Match ID: '' @ show_int (match_seq ?d1))),
       release (?d1\<lparr>committed := tables_after (match_seq ?d1) w (filter (\<lambda>p. \<not> skipped p) ps)
                                 (committed ?d1),
                  conn := Idle, match_seq := match_seq ?d1 + 1,
                  log := log ?d1 @ [Query Begin, Query (InsertMatch w)] @
                    concat (map (entry_statements (match_seq ?d1) w) (filter (\<lambda>p. \<not> skipped p) ps)) @
                    [Query Commit]\<rparr>))"
    by (simp only: create_match_def c match_txn_applied [OF assms(1) c1 assms(3)]
          sum.case prod.case)
  then show ?thesis
    by (simp add: release_def)
qed


lemma query_Inr:
  "query F s d = Inr x \<Longrightarrow> x = exec s (d\<lparr>log := log d @ [Query s]\<rparr>)"
  by (auto simp: query_def Let_def split: if_splits)

lemma record_players_Inr:
  assumes "record_players F m w ps d = Inr d'" and "conn d = InTxn t"
  shows "d' = d\<lparr>conn := InTxn
               (t\<lparr>players_tbl := foldl (\<lambda>tbl p. map (credited w p) tbl) (players_tbl t)
                                     (filter (\<lambda>p. \<not> skipped p) ps),
                  player_matches_tbl := player_matches_tbl t @
                     map (entry_row m) (filter (\<lambda>p. \<not> skipped p) ps)\<rparr>),
            log := log d @ concat (map (entry_statements m w) (filter (\<lambda>p. \<not> skipped p) ps))\<rparr>"
  using assms
proof (induction ps arbitrary: d t)
  case Nil
  then show ?case by simp
next
  case (Cons p ps)
  show ?case
  proof (cases "get_prop p ''id''")
    case (Inl e)
    with Cons.prems(1) show ?thesis by simp
  next
    case i: (Inr pid)
    show ?thesis
    proof (cases "skipped p")
      case True
      with i Cons.prems(1) have "record_players F m w ps d = Inr d'"
        by (simp add: skipped_def)
      from Cons.IH [OF this Cons.prems(2)] True show ?thesis by simp
    next
      case False
      obtain kills where k: "get_prop p ''kills'' = Inr kills" using i by (cases p) simp_all
      obtain deaths where dt: "get_prop p ''deaths'' = Inr deaths" using i by (cases p) simp_all
      let ?ins = "InsertPlayerMatch (pg_num pid) m (pg_num kills) (pg_num deaths)"
      let ?upd = "UpdatePlayer (pid = Some (JNum (of_int w))) (pg_num kills) (pg_num deaths) (pg_num pid)"
      let ?d1 = "d\<lparr>log := log d @ [Query ?ins],
                   conn := InTxn (t\<lparr>player_matches_tbl := player_matches_tbl t @ [entry_row m p]\<rparr>)\<rparr>"
      let ?t2 = "t\<lparr>player_matches_tbl := player_matches_tbl t @ [entry_row m p],
                   players_tbl := map (credited w p) (players_tbl t)\<rparr>"
      let ?d2 = "d\<lparr>log := log d @ [Query ?ins, Query ?upd], conn := InTxn ?t2\<rparr>"
      have st: "entry_statements m w p = [Query ?ins, Query ?upd]"
        using i k dt by (auto simp: entry_statements_def entry_num_def pg_num_Some)
      show ?thesis
      proof (cases "query F ?ins d")
        case (Inl err)
        with i False k dt Cons.prems(1) show ?thesis by (simp add: skipped_def)
      next
        case q1: (Inr r1)
        from query_Inr [OF q1] Cons.prems(2) i k dt have r1: "r1 = ([], ?d1)"
          by (simp add: write_tables_def current_def entry_row_def entry_num_def)
        show ?thesis
        proof (cases "query F ?upd ?d1")
          case (Inl err)
          with i False k dt q1 r1 Cons.prems(1) show ?thesis by (simp add: skipped_def)
        next
          case q2: (Inr r2)
          from query_Inr [OF q2] have r2: "r2 = ([], ?d2)"
            by (simp add: write_tables_def current_def update_row_credited [OF i k dt])
          from i False k dt q1 r1 q2 r2 Cons.prems(1)
          have rest: "record_players F m w ps ?d2 = Inr d'"
            by (simp add: skipped_def)
          have c2: "conn ?d2 = InTxn ?t2" by simp
          from Cons.IH [OF rest c2] False st show ?thesis by simp
        qed
      qed
    qed
  qed
qed

lemma match_txn_Inr:
  assumes "match_txn F w (JArr ps) d = Inr (mid, d')"
  shows "mid = match_seq d \<and>
     d' = d\<lparr>committed := tables_after (match_seq d) w (filter (\<lambda>p. \<not> skipped p) ps) (current d),
            conn := Idle, match_seq := match_seq d + 1,
            log := log d @ [Query Begin, Query (InsertMatch w)] @
                   concat (map (entry_statements (match_seq d) w) (filter (\<lambda>p. \<not> skipped p) ps)) @
                   [Query Commit]\<rparr>"
proof -
  let ?kept = "filter (\<lambda>p. \<not> skipped p) ps"
  let ?d1 = "d\<lparr>log := log d @ [Query Begin], conn := InTxn (current d)\<rparr>"
  let ?t2 = "(current d)\<lparr>matches_tbl := matches_tbl (current d) @
                 [\<lparr>ma_id = match_seq d, ma_winner = w\<rparr>]\<rparr>"
  let ?d2 = "d\<lparr>log := log d @ [Query Begin, Query (InsertMatch w)], conn := InTxn ?t2,
               match_seq := match_seq d + 1\<rparr>"
  let ?t3 = "?t2\<lparr>players_tbl := foldl (\<lambda>tbl p. map (credited w p) tbl) (players_tbl ?t2) ?kept,
               player_matches_tbl := player_matches_tbl ?t2 @ map (entry_row (match_seq d)) ?kept\<rparr>"
  let ?d3 = "?d2\<lparr>conn := InTxn ?t3,
               log := log ?d2 @ concat (map (entry_statements (match_seq d) w) ?kept)\<rparr>"
  have t3: "?t3 = tables_after (match_seq d) w ?kept (current d)"
    by (simp add: tables_after_def foldl_map_rows)
  show ?thesis
  proof (cases "query F Begin d")
    case (Inl err)
    with assms show ?thesis by (simp add: match_txn_def)
  next
    case q1: (Inr r0)
    then have na: "conn d \<noteq> Aborted"
      by (auto simp: query_def Let_def split: if_splits)
    from query_Inr [OF q1] na have r0: "r0 = ([], ?d1)"
      by (cases "conn d") (simp_all add: current_def)
    show ?thesis
    proof (cases "query F (InsertMatch w) ?d1")
      case (Inl err)
      with assms q1 r0 show ?thesis by (simp add: match_txn_def)
    next
      case q2: (Inr r)
      from query_Inr [OF q2] have r: "r = ([match_seq d], ?d2)"
        by (simp add: write_tables_def current_def)
      show ?thesis
      proof (cases "record_players F (match_seq d) w ps ?d2")
        case (Inl err)
        with assms q1 r0 q2 r show ?thesis by (simp add: match_txn_def)
      next
        case q3: (Inr d3)
        have c2: "conn ?d2 = InTxn ?t2" by simp
        from record_players_Inr [OF q3 c2] have d3: "d3 = ?d3" .
        show ?thesis
        proof (cases "query F Commit ?d3")
          case (Inl err)
          with assms q1 r0 q2 r q3 d3 show ?thesis by (simp add: match_txn_def)
        next
          case q4: (Inr r1)
          from query_Inr [OF q4]
          have r1: "r1 = ([], ?d3\<lparr>log := log ?d3 @ [Query Commit], committed := ?t3, conn := Idle\<rparr>)"
            by simp
          define D where "D = ?d3\<lparr>log := log ?d3 @ [Query Commit], committed := ?t3, conn := Idle\<rparr>"
          have "match_txn F w (JArr ps) d = Inr (match_seq d, D)"
            by (simp only: match_txn_def q1 r0 q2 r q3 d3 q4 r1 sum.case prod.case list.case
                  elements.simps D_def)
          with assms have md: "mid = match_seq d" "d' = D" by simp_all
          have "D = d\<lparr>committed := tables_after (match_seq d) w ?kept (current d),
                  conn := Idle, match_seq := match_seq d + 1,
                  log := log d @ [Query Begin, Query (InsertMatch w)] @
                     concat (map (entry_statements (match_seq d) w) ?kept) @ [Query Commit]\<rparr>"
            unfolding D_def by (simp add: t3 [symmetric])
          with md show ?thesis by simp
        qed
      qed
    qed
  qed
qed

lemma create_match_200:
  assumes "fst (create_match F w (JArr ps) d) = Some r" and "status r = 200"
  shows "create_match F w (JArr ps) d =
     (Some (respond 200 (''Match ID: '' @ show_int (match_seq d))),
      d\<lparr>committed := tables_after (match_seq d) w (filter (\<lambda>p. \<not> skipped p) ps) (current d),
        conn := Idle, match_seq := match_seq d + 1,
        log := log d @ [Connect, Query Begin, Query (InsertMatch w)] @
               concat (map (entry_statements (match_seq d) w) (filter (\<lambda>p. \<not> skipped p) ps)) @
               [Query Commit, Release]\<rparr>)"
proof (cases "connect F d")
  case (Inl err)
  with assms show ?thesis by (simp add: create_match_def split: prod.splits)
next
  case c: (Inr d1)
  then have d1: "d1 = d\<lparr>log := log d @ [Connect]\<rparr>"
    by (auto simp: connect_def split: if_splits)
  show ?thesis
  proof (cases "match_txn F w (JArr ps) d1")
    case (Inl err)
    with assms c show ?thesis
      by (auto simp: create_match_def respond_def split: prod.splits)
  next
    case (Inr ok)
    obtain mid d2 where ok: "ok = (mid, d2)" by (cases ok)
    from match_txn_Inr [OF Inr [unfolded ok]] d1
    have m: "mid = match_seq d" and
      d2: "d2 = d1\<lparr>committed := tables_after (match_seq d1) w (filter (\<lambda>p. \<not> skipped p) ps) (current d1),
            conn := Idle, match_seq := match_seq d1 + 1,
            log := log d1 @ [Query Begin, Query (InsertMatch w)] @
                   concat (map (entry_statements (match_seq d1) w) (filter (\<lambda>p. \<not> skipped p) ps)) @
                   [Query Commit]\<rparr>"
      by simp_all
    have "create_match F w (JArr ps) d =
        (Some (respond 200 (''Match ID: '' @ show_int mid)), release d2)"
      by (simp only: create_match_def c Inr ok sum.case prod.case)
    moreover have "current (d\<lparr>log := log d @ [Connect]\<rparr>) = current d"
      by (cases "conn d") (simp_all add: current_def)
    ultimately show ?thesis
      unfolding m d2 d1 by (simp add: release_def)
  qed
qed

text \<open>
  C10: an entry of the player data whose \<open>id\<close> is \<open>-1\<close> is skipped entirely, and the
  match row and the mutations for every other entry are applied. For every accepted
  request (the caller is authorized, the parameters pass the checks):
  \<^item> the invocation does exactly what it does on the player data without the entries
    of id \<open>-1\<close>, whatever the database does;
  \<^item> no statement on \<open>player_matches\<close> or \<open>players\<close> for the player id \<open>-1\<close> is among
    the calls it adds to the log;
  \<^item> when the pool and the database do not fail, no transaction is open and no entry
    is \<open>null\<close>, the invocation answers 200;
  \<^item> and whenever it answers 200, the answer is the id of the match and the final
    state is the initial one with the tables committed as they were plus the row of
    the match, one row of \<open>player_matches\<close> for each entry whose id is not \<open>-1\<close>, and
    the counters of \<open>players\<close> credited with each such entry; the calls logged are
    the connection, BEGIN, the INSERT of the match, the INSERT and the UPDATE of each
    such entry in order, COMMIT and the release.
\<close>

theorem minus_one_skipped:
  assumes "authorize q = Next" and "\<not> invalid_params parse q"
    and "parse (to_string (q_players q)) = Some (JArr ps)"
    and "parseInt (to_string (q_winner q)) = Some w"
  shows "route_match_new parse F q d =
           create_match F w (JArr (filter (\<lambda>p. \<not> skipped p) ps)) d \<and>
         nothing_sent_for (- 1) d (snd (route_match_new parse F q d)) \<and>
         ((\<forall>past e. \<not> F past e) \<and> conn d = Idle \<and> list_all (\<lambda>p. p \<noteq> JNull) ps \<longrightarrow>
            map_option status (fst (route_match_new parse F q d)) = Some 200) \<and>
         (map_option status (fst (route_match_new parse F q d)) = Some 200 \<longrightarrow>
            route_match_new parse F q d =
              (Some (respond 200 (''Match ID: '' @ show_int (match_seq d))),
               d\<lparr>committed :=
                    tables_after (match_seq d) w (filter (\<lambda>p. \<not> skipped p) ps)
                      (case conn d of InTxn t \<Rightarrow> t | Idle \<Rightarrow> committed d | Aborted \<Rightarrow> committed d),
                  conn := Idle, match_seq := match_seq d + 1,
                  log := log d @ [Connect, Query Begin, Query (InsertMatch w)] @
                         concat (map (entry_statements (match_seq d) w)
                                   (filter (\<lambda>p. \<not> skipped p) ps)) @
                         [Query Commit, Release]\<rparr>))"
proof -
  from assms have r: "route_match_new parse F q d = create_match F w (JArr ps) d"
    by (simp add: route_match_new_def handler_valid)
  have ok: "map_option status (fst (create_match F w (JArr ps) d)) = Some 200"
    if "\<forall>past e. \<not> F past e" and "conn d = Idle" and "list_all (\<lambda>p. p \<noteq> JNull) ps"
    using create_match_applied [OF that, of w] by (simp add: respond_def)
  have fin: "create_match F w (JArr ps) d =
      (Some (respond 200 (''Match ID: '' @ show_int (match_seq d))),
       d\<lparr>committed :=
            tables_after (match_seq d) w (filter (\<lambda>p. \<not> skipped p) ps) (current d),
          conn := Idle, match_seq := match_seq d + 1,
          log := log d @ [Connect, Query Begin, Query (InsertMatch w)] @
                 concat (map (entry_statements (match_seq d) w)
                           (filter (\<lambda>p. \<not> skipped p) ps)) @
                 [Query Commit, Release]\<rparr>)"
    if "map_option status (fst (create_match F w (JArr ps) d)) = Some 200"
  proof -
    from that obtain x where "fst (create_match F w (JArr ps) d) = Some x" and "status x = 200"
      by auto
    then show ?thesis by (rule create_match_200)
  qed
  show ?thesis
    unfolding r
  proof (intro conjI impI)
    show "create_match F w (JArr ps) d =
            create_match F w (JArr (filter (\<lambda>p. \<not> skipped p) ps)) d"
      by (simp add: create_match_skip)
  next
    show "nothing_sent_for (- 1) d (snd (create_match F w (JArr ps) d))"
      by (rule create_match_nothing_sent)
  next
    assume "(\<forall>past e. \<not> F past e) \<and> conn d = Idle \<and> list_all (\<lambda>p. p \<noteq> JNull) ps"
    then show "map_option status (fst (create_match F w (JArr ps) d)) = Some 200"
      using ok by blast
  next
    assume "map_option status (fst (create_match F w (JArr ps) d)) = Some 200"
    then show "create_match F w (JArr ps) d =
      (Some (respond 200 (''Match ID: '' @ show_int (match_seq d))),
       d\<lparr>committed :=
            tables_after (match_seq d) w (filter (\<lambda>p. \<not> skipped p) ps)
              (case conn d of InTxn t \<Rightarrow> t | Idle \<Rightarrow> committed d | Aborted \<Rightarrow> committed d),
          conn := Idle, match_seq := match_seq d + 1,
          log := log d @ [Connect, Query Begin, Query (InsertMatch w)] @
                 concat (map (entry_statements (match_seq d) w)
                           (filter (\<lambda>p. \<not> skipped p) ps)) @
                 [Query Commit, Release]\<rparr>)"
      by (rule fin [unfolded current_def])
  qed
qed

text \<open>
  C10, witness: the first of two entries has the id \<open>-1\<close>. The invocation answers
  with the id of the match; the statements sent are those for the match and for
  player 1; player 1 has a match, a win and two kills more, and no row carries the
  id \<open>-1\<close>.
\<close>

theorem minus_one_skipped_witness:
  \<open>authorize (request ''secret'' ''[{"id":-1,"kills":5,"deaths":5},{"id":1,"kills":2,"deaths":0}]'' ''1'') = Next \<and>
   \<not> invalid_params sample_parse
       (request ''secret'' ''[{"id":-1,"kills":5,"deaths":5},{"id":1,"kills":2,"deaths":0}]'' ''1'') \<and>
   (\<forall>past e. \<not> no_faults past e) \<and> conn sample_db = Idle \<and>
   route_match_new sample_parse no_faults
       (request ''secret'' ''[{"id":-1,"kills":5,"deaths":5},{"id":1,"kills":2,"deaths":0}]'' ''1'')
       sample_db =
     (Some (respond 200 ''Match ID: 13''),
      sample_db\<lparr>committed :=
          \<lparr>players_tbl =
             [(new_player 1)\<lparr>pl_matches := Some 1, pl_wins := Some 1, pl_kills := Some 2,
                pl_deaths := Some 0\<rparr>,
              new_player 2],
           matches_tbl = matches_tbl sample_tables @ [\<lparr>ma_id = 13, ma_winner = 1\<rparr>],
           player_matches_tbl = player_matches_tbl sample_tables @
             [\<lparr>pm_player = Some 1, pm_match = 13, pm_kills = Some 2, pm_deaths = Some 0\<rparr>]\<rparr>,
        conn := Idle, match_seq := 14,
        log := [Connect, Query Begin, Query (InsertMatch 1),
                Query (InsertPlayerMatch (Some 1) 13 (Some 2) (Some 0)),
                Query (UpdatePlayer True (Some 2) (Some 0) (Some 1)), Query Commit, Release]\<rparr>) \<and>
   nothing_sent_for (- 1) sample_db
     (snd (route_match_new sample_parse no_faults
       (request ''secret'' ''[{"id":-1,"kills":5,"deaths":5},{"id":1,"kills":2,"deaths":0}]'' ''1'')
       sample_db))\<close>
proof -
  let ?q = \<open>request ''secret'' ''[{"id":-1,"kills":5,"deaths":5},{"id":1,"kills":2,"deaths":0}]'' ''1''\<close>
  let ?p1 = "JObj [(''id'', JNum 1), (''kills'', JNum 2), (''deaths'', JNum 0)]"
  let ?ps = "[JObj [(''id'', JNum (- 1)), (''kills'', JNum 5), (''deaths'', JNum 5)], ?p1]"
  have a: "authorize ?q = Next"
    by (simp add: authorize_def request_def)
  have p: "sample_parse (to_string (q_players ?q)) = Some (JArr ?ps)"
    by (simp add: request_def sample_parse_def)
  have w: "parseInt (to_string (q_winner ?q)) = Some 1"
    by (simp add: request_def parseInt_one)
  have v: "\<not> invalid_params sample_parse ?q"
    using p w by (simp add: invalid_params_def property_ok_def)
  have nf: "\<forall>past e. \<not> no_faults past e"
    by (simp add: no_faults_def)
  have c: "conn sample_db = Idle"
    by (simp add: sample_db_def)
  have nn: "list_all (\<lambda>p. p \<noteq> JNull) ?ps"
    by simp
  have f: "filter (\<lambda>p. \<not> skipped p) ?ps = [?p1]"
    by (simp add: skipped_def)
  note t = minus_one_skipped [OF a v p w, of no_faults sample_db]
  from t nf c nn have s: "map_option status (fst (route_match_new sample_parse no_faults ?q sample_db)) = Some 200"
    by blast
  with t have e: "route_match_new sample_parse no_faults ?q sample_db =
      (Some (respond 200 (''Match ID: '' @ show_int (match_seq sample_db))),
       sample_db\<lparr>committed :=
            tables_after (match_seq sample_db) 1 (filter (\<lambda>p. \<not> skipped p) ?ps)
              (case conn sample_db of InTxn t \<Rightarrow> t | Idle \<Rightarrow> committed sample_db
               | Aborted \<Rightarrow> committed sample_db),
          conn := Idle, match_seq := match_seq sample_db + 1,
          log := log sample_db @ [Connect, Query Begin, Query (InsertMatch 1)] @
                 concat (map (entry_statements (match_seq sample_db) 1)
                           (filter (\<lambda>p. \<not> skipped p) ?ps)) @
                 [Query Commit, Release]\<rparr>)"
    by blast
  have ta: "tables_after 13 1 [?p1] sample_tables =
      \<lparr>players_tbl =
         [(new_player 1)\<lparr>pl_matches := Some 1, pl_wins := Some 1, pl_kills := Some 2,
            pl_deaths := Some 0\<rparr>,
          new_player 2],
       matches_tbl = matches_tbl sample_tables @ [\<lparr>ma_id = 13, ma_winner = 1\<rparr>],
       player_matches_tbl = player_matches_tbl sample_tables @
         [\<lparr>pm_player = Some 1, pm_match = 13, pm_kills = Some 2, pm_deaths = Some 0\<rparr>]\<rparr>"
    by (simp add: tables_after_def credited_def entry_num_def entry_row_def plus_null_def
          sample_tables_def new_player_def)
  have st: "entry_statements 13 1 ?p1 =
      [Query (InsertPlayerMatch (Some 1) 13 (Some 2) (Some 0)),
       Query (UpdatePlayer True (Some 2) (Some 0) (Some 1))]"
    by (simp add: entry_statements_def entry_num_def)
  have sd: "match_seq sample_db = 13" "log sample_db = []" "conn sample_db = Idle"
    "committed sample_db = sample_tables"
    by (simp_all add: sample_db_def)
  have e': "route_match_new sample_parse no_faults ?q sample_db =
     (Some (respond 200 ''Match ID: 13''),
      sample_db\<lparr>committed :=
          \<lparr>players_tbl =
             [(new_player 1)\<lparr>pl_matches := Some 1, pl_wins := Some 1, pl_kills := Some 2,
                pl_deaths := Some 0\<rparr>,
              new_player 2],
           matches_tbl = matches_tbl sample_tables @ [\<lparr>ma_id = 13, ma_winner = 1\<rparr>],
           player_matches_tbl = player_matches_tbl sample_tables @
             [\<lparr>pm_player = Some 1, pm_match = 13, pm_kills = Some 2, pm_deaths = Some 0\<rparr>]\<rparr>,
        conn := Idle, match_seq := 14,
        log := [Connect, Query Begin, Query (InsertMatch 1),
                Query (InsertPlayerMatch (Some 1) 13 (Some 2) (Some 0)),
                Query (UpdatePlayer True (Some 2) (Some 0) (Some 1)), Query Commit, Release]\<rparr>)"
    unfolding e f sd by (simp add: ta st show_int_13)
  from t have n: "nothing_sent_for (- 1) sample_db
      (snd (route_match_new sample_parse no_faults ?q sample_db))"
    by blast
  show ?thesis by (intro conjI a v nf c e' n)
qed

section \<open>The read handlers\<close>

lemma concat_commas:
  "rows \<noteq> [] \<Longrightarrow> concat (map (\<lambda>b. f b @ '','') rows) = comma_joined (map f rows) @ '',''"
  by (induction rows rule: induct_list012) simp_all

lemma foldl_commas:
  "foldl (\<lambda>a b. a @ f b @ '','') acc rows = acc @ concat (map (\<lambda>b. f b @ '','') rows)"
  by (induction rows arbitrary: acc) simp_all

lemma match_list_chopped:
  assumes "rows \<noteq> []"
  shows "take (length (foldl (\<lambda>a b. a @ f b @ '','') [] rows) - 1)
           (foldl (\<lambda>a b. a @ f b @ '','') [] rows) = comma_joined (map f rows)"
proof -
  have "foldl (\<lambda>a b. a @ f b @ '','') [] rows = comma_joined (map f rows) @ '',''"
    using assms by (simp add: foldl_commas concat_commas)
  then show ?thesis by simp
qed

text \<open>
  C8: for a player id that \<open>validateOnePlayerId\<close> accepts and a query that succeeds,
  the match list answers \<open>no matches found\<close> when the query gives no row, and otherwise
  the ids of the matches, in the order of the rows, joined by single commas with no
  trailing comma.
\<close>

theorem match_list_comma_joined:
  assumes "validateOnePlayerId s = Inr p" and "query F (SelectMatches p) d = Inr (rows, d')"
  shows "player_matches_route F s d =
     (Some (respond 200
        (if rows = [] then ''no matches found'' else comma_joined (map show_int rows))), d')"
proof (cases "rows = []")
  case True
  with assms show ?thesis by (simp add: player_matches_route_def)
next
  case False
  with assms match_list_chopped [OF False, of show_int] show ?thesis
    by (simp add: player_matches_route_def Let_def)
qed

text \<open>C8, witness: player 7 of the sample has played the matches 3 and 12.\<close>

theorem match_list_comma_joined_witness:
  "validateOnePlayerId ''7'' = Inr 7 \<and>
   query no_faults (SelectMatches 7) sample_db =
     Inr ([3, 12], sample_db\<lparr>log := [Query (SelectMatches 7)]\<rparr>) \<and>
   player_matches_route no_faults ''7'' sample_db =
     (Some (respond 200 ''3,12''), sample_db\<lparr>log := [Query (SelectMatches 7)]\<rparr>)"
proof -
  have v: "validateOnePlayerId ''7'' = Inr 7"
    by (simp add: validateOnePlayerId_def parseInt_seven)
  have q: "query no_faults (SelectMatches 7) sample_db =
             Inr ([3, 12], sample_db\<lparr>log := [Query (SelectMatches 7)]\<rparr>)"
    by (simp add: query_def no_faults_def sample_db_def sample_tables_def current_def)
  from match_list_comma_joined [OF v q] v q show ?thesis
    by (simp add: show_int_3 show_int_12)
qed

text \<open>
  C3 (as stated, refuted): the score summary of a player with no recorded match does
  not fail. Player 2 of the sample has none: the quotient \<open>0 / 0\<close> is \<open>NaN\<close>, and the
  handler answers 200 with the four lines.
\<close>

theorem zero_matches_answers_NaN:
  "scores_all (\<lambda>x. []) no_faults ''2'' sample_db =
     (Some (respond 200 (''matches: 0'' @ newline @ ''wins: 0'' @ newline @
                         ''losses: 0'' @ newline @ ''win percent: NaN'' @ newline)),
      sample_db\<lparr>log := [Query (SelectWinners 2)]\<rparr>)"
  by (simp add: scores_all_def validateOnePlayerId_def parseInt_two query_def no_faults_def
        sample_db_def sample_tables_def current_def js_divide_def show_nat_0 show_int_0 respond_def)

text \<open>
  C3 (amended): a division by zero is not an error in the score summary. For a player
  id that \<open>validateOnePlayerId\<close> accepts and a query that succeeds the handler always
  answers 200; for a player with no recorded match the quotient is \<open>NaN\<close> and the
  answer is \<open>matches: 0\<close>, \<open>wins: 0\<close>, \<open>losses: 0\<close>, \<open>win percent: NaN\<close>.
\<close>

theorem scores_all_never_fails_on_division:
  assumes "validateOnePlayerId s = Inr p" and "query F (SelectWinners p) d = Inr (rows, d')"
  shows "map_option status (fst (scores_all fmt F s d)) = Some 200 \<and>
         (rows = [] \<longrightarrow>
            scores_all fmt F s d =
              (Some (respond 200 (''matches: 0'' @ newline @ ''wins: 0'' @ newline @
                                  ''losses: 0'' @ newline @ ''win percent: NaN'' @ newline)), d'))"
proof (intro conjI impI)
  from assms show "map_option status (fst (scores_all fmt F s d)) = Some 200"
    by (simp add: scores_all_def Let_def respond_def)
next
  assume "rows = []"
  with assms show "scores_all fmt F s d =
      (Some (respond 200 (''matches: 0'' @ newline @ ''wins: 0'' @ newline @
                          ''losses: 0'' @ newline @ ''win percent: NaN'' @ newline)), d')"
    by (simp add: scores_all_def Let_def js_divide_def show_nat_0 show_int_0)
qed

text \<open>C3, witness: player 1 of the sample has no recorded match either.\<close>

theorem scores_all_never_fails_on_division_witness:
  "validateOnePlayerId ''1'' = Inr 1 \<and>
   query no_faults (SelectWinners 1) sample_db = Inr ([], sample_db\<lparr>log := [Query (SelectWinners 1)]\<rparr>) \<and>
   scores_all (\<lambda>x. []) no_faults ''1'' sample_db =
     (Some (respond 200 (''matches: 0'' @ newline @ ''wins: 0'' @ newline @
                         ''losses: 0'' @ newline @ ''win percent: NaN'' @ newline)),
      sample_db\<lparr>log := [Query (SelectWinners 1)]\<rparr>)"
proof -
  have v: "validateOnePlayerId ''1'' = Inr 1"
    by (simp add: validateOnePlayerId_def parseInt_one)
  have q: "query no_faults (SelectWinners 1) sample_db =
             Inr ([], sample_db\<lparr>log := [Query (SelectWinners 1)]\<rparr>)"
    by (simp add: query_def no_faults_def sample_db_def sample_tables_def current_def)
  from scores_all_never_fails_on_division [OF v q, of "\<lambda>x. []"] v q show ?thesis
    by simp
qed

section \<open>The two player-id validators\<close>

text \<open>
  C9 (as stated, refuted): the two validators do not accept the same inputs. On the
  input \<open>'0'\<close> \<open>validateOnePlayerId\<close> returns 0 and the middleware
  \<open>validatePlayerId\<close> answers 400.
\<close>

theorem validators_disagree_on_zero:
  "validateOnePlayerId ''0'' = Inr 0 \<and>
   validatePlayerId ''0'' = End (respond 400 ''Invalid player ID.'')"
  by (simp add: validateOnePlayerId_def validatePlayerId_def parseInt_zero)

text \<open>
  C9 (amended): the middleware \<open>validatePlayerId\<close> accepts an input exactly when
  \<open>validateOnePlayerId\<close> accepts it with a value other than 0. So every input the
  middleware accepts is accepted by \<open>validateOnePlayerId\<close>, and the two differ exactly
  on the inputs that \<open>parseInt\<close> reads as 0.
\<close>

theorem validatePlayerId_iff:
  "(validatePlayerId s = Next) = (\<exists>n. validateOnePlayerId s = Inr n \<and> n \<noteq> 0)"
  by (auto simp: validatePlayerId_def validateOnePlayerId_def split: option.splits)

text \<open>C9, witness: both accept the input \<open>'7'\<close>.\<close>

theorem validatePlayerId_iff_witness:
  "validatePlayerId ''7'' = Next \<and> validateOnePlayerId ''7'' = Inr 7"
  using validatePlayerId_iff [of "''7''"]
  by (simp add: validateOnePlayerId_def parseInt_seven)

section \<open>The debit of the Economy Store\<close>

text \<open>
  C7: a debit of more than the balance fails with \<open>InsufficientBalanceError\<close>, and the
  store after the call is the store before it, the balance of every owner and type
  included.
\<close>

theorem debit_insufficient:
  "amount > getBalance E owner ty \<Longrightarrow> debit E owner ty amount = (Some InsufficientBalanceError, E)"
  by (simp add: debit_def)

text \<open>C7, witness: a debit of 7 gems from a balance of 5.\<close>

theorem debit_insufficient_witness:
  "(7::rat) > getBalance (\<lambda>k. 5) ''ann'' ''gems'' \<and>
   debit (\<lambda>k. 5) ''ann'' ''gems'' 7 = (Some InsufficientBalanceError, (\<lambda>k. 5))"
  using debit_insufficient [of "\<lambda>k. 5" "''ann''" "''gems''" 7]
  by (simp add: getBalance_def)

end
